theory Spec2Isabelle
  imports Main "HOL-Library.Word" "HOL-Library.Multiset"
begin

unbundle bit_operations_syntax

section \<open>Python strings\<close>

text \<open>
  The generator works on C++ identifiers, clang type spellings and WIT paths. A Python
  \<open>str\<close> is modelled as a \<open>string\<close> whose characters are read as ASCII code points;
  characters outside ASCII (where Python's case mapping is Unicode's) are not modelled.
\<close>

definition is_upper :: "char \<Rightarrow> bool" where
  "is_upper c = (65 \<le> (of_char c :: nat) \<and> (of_char c :: nat) \<le> 90)"

definition is_lower :: "char \<Rightarrow> bool" where
  "is_lower c = (97 \<le> (of_char c :: nat) \<and> (of_char c :: nat) \<le> 122)"

definition is_digit :: "char \<Rightarrow> bool" where
  "is_digit c = (48 \<le> (of_char c :: nat) \<and> (of_char c :: nat) \<le> 57)"

definition is_alnum :: "char \<Rightarrow> bool" where
  "is_alnum c = (is_upper c \<or> is_lower c \<or> is_digit c)"


definition to_lower :: "char \<Rightarrow> char" where
  "to_lower c = (if is_upper c then char_of ((of_char c :: nat) + 32) else c)"

definition to_upper :: "char \<Rightarrow> char" where
  "to_upper c = (if is_lower c then char_of ((of_char c :: nat) - 32) else c)"

definition py_lower :: "string \<Rightarrow> string" where
  "py_lower s = map to_lower s"

text \<open>\<open>str.capitalize()\<close>: first character upper-cased, the rest lower-cased.\<close>

definition capitalize :: "string \<Rightarrow> string" where
  "capitalize s = (case s of [] \<Rightarrow> [] | c # cs \<Rightarrow> to_upper c # map to_lower cs)"

definition startswith :: "string \<Rightarrow> string \<Rightarrow> bool" where
  "startswith s p = (take (length p) s = p)"

text \<open>
  \<open>s.split(sep)\<close> for a non-empty separator, given as its first character and the rest
  (every call site passes a literal separator; Python raises on an empty one).
  \<open>cur\<close> is the piece being read.
\<close>

fun split_from :: "char \<Rightarrow> string \<Rightarrow> string \<Rightarrow> string \<Rightarrow> string list" where
  "split_from s0 ss cur [] = [cur]"
| "split_from s0 ss cur (c # cs) =
     (if c = s0 \<and> startswith cs ss then cur # split_from s0 ss [] (drop (length ss) cs)
      else split_from s0 ss (cur @ [c]) cs)"

definition py_split :: "char \<Rightarrow> string \<Rightarrow> string \<Rightarrow> string list" where
  "py_split s0 ss s = split_from s0 ss [] s"

text \<open>\<open>s.replace(old, new)\<close> for a non-empty \<open>old\<close>, given the same way.\<close>

fun py_replace :: "char \<Rightarrow> string \<Rightarrow> string \<Rightarrow> string \<Rightarrow> string" where
  "py_replace o0 os new [] = []"
| "py_replace o0 os new (c # cs) =
     (if c = o0 \<and> startswith cs os then new @ py_replace o0 os new (drop (length os) cs)
      else c # py_replace o0 os new cs)"

text \<open>\<open>s.find(ch)\<close>: the index of the first occurrence, or -1.\<close>

fun py_find :: "char \<Rightarrow> string \<Rightarrow> int" where
  "py_find ch [] = -1"
| "py_find ch (c # cs) =
     (if c = ch then 0 else (let i = py_find ch cs in if i < 0 then -1 else i + 1))"



section \<open>Name-form translation\<close>

text \<open>
  \<open>convert_function_name_to_wit_format\<close>: the loop over the characters of \<open>name\<close>,
  with \<open>result\<close> the list of pieces appended so far; the pieces are joined at the end.
\<close>

fun wit_loop :: "string list \<Rightarrow> string \<Rightarrow> string list" where
  "wit_loop result [] = result"
| "wit_loop result (ch # rest) =
     (if ch = CHR ''_'' then wit_loop result rest
      else wit_loop
             ((if is_upper ch \<and> result \<noteq> [] then result @ [''-''] else result) @ [[to_lower ch]])
             rest)"

definition convert_function_name_to_wit_format :: "string \<Rightarrow> string" where
  "convert_function_name_to_wit_format name = concat (wit_loop [] name)"

text \<open>
  The kebab-case rule in the words of the specification: one step per character, on the
  output text accumulated so far.
\<close>

definition kebab_step :: "string \<Rightarrow> char \<Rightarrow> string" where
  "kebab_step out ch =
     (if ch = CHR ''_'' then out
      else out @ (if is_upper ch \<and> out \<noteq> [] then ''-'' else []) @ [to_lower ch])"

definition kebab_spec :: "string \<Rightarrow> string" where
  "kebab_spec s = foldl kebab_step [] s"

text \<open>\<open>convert_wit_to_cxx_function_name\<close>: split on the dash, capitalize, join.\<close>

definition convert_wit_to_cxx_function_name :: "string \<Rightarrow> string" where
  "convert_wit_to_cxx_function_name wit_function_name =
     concat (map capitalize (py_split CHR ''-'' [] wit_function_name))"

section \<open>JSON values and Python dictionaries\<close>

text \<open>
  The tree that clang dumps is JSON. A Python \<open>dict\<close> keeps insertion order, so an object
  is an association list (keys distinct, as \<open>json.loads\<close> produces them). JSON numbers
  with a fraction or an exponent (Python floats) are not modelled; clang's dump has none.
\<close>

datatype json =
    JNull
  | JBool bool
  | JInt int
  | JStr string
  | JArr "json list"
  | JObj "(string \<times> json) list"

text \<open>
  The exceptions the passes can raise. \<open>NotModelled\<close> is not a Python exception: it marks
  a run that leaves the fragment of Python modelled here (a list or an object where
  the source formats or sorts a value); nothing is claimed about such a run.
\<close>

datatype pyerr = TypeError | AttributeError | KeyError | NotModelled

type_synonym 'a result = "pyerr + 'a"

definition bind :: "'a result \<Rightarrow> ('a \<Rightarrow> 'b result) \<Rightarrow> 'b result" where
  "bind m f = (case m of Inl e \<Rightarrow> Inl e | Inr x \<Rightarrow> f x)"

text \<open>\<open>d.get(k)\<close> is \<open>map_of d k\<close>; \<open>d[k] = v\<close> replaces in place or appends.\<close>

primrec dict_set :: "string \<Rightarrow> json \<Rightarrow> (string \<times> json) list \<Rightarrow> (string \<times> json) list" where
  "dict_set k v [] = [(k, v)]"
| "dict_set k v (p # ps) = (if fst p = k then (k, v) # ps else p # dict_set k v ps)"

definition get_or :: "(string \<times> json) list \<Rightarrow> string \<Rightarrow> json \<Rightarrow> json" where
  "get_or d k dflt = (case map_of d k of None \<Rightarrow> dflt | Some v \<Rightarrow> v)"

text \<open>Python truthiness of a JSON value.\<close>

fun truthy :: "json \<Rightarrow> bool" where
  "truthy JNull = False"
| "truthy (JBool b) = b"
| "truthy (JInt i) = (i \<noteq> 0)"
| "truthy (JStr s) = (s \<noteq> [])"
| "truthy (JArr xs) = (xs \<noteq> [])"
| "truthy (JObj kvs) = (kvs \<noteq> [])"

definition truthy_opt :: "json option \<Rightarrow> bool" where
  "truthy_opt v = (case v of None \<Rightarrow> False | Some x \<Rightarrow> truthy x)"

definition kind_is :: "(string \<times> json) list \<Rightarrow> string \<Rightarrow> bool" where
  "kind_is d k = (map_of d ''kind'' = Some (JStr k))"

text \<open>\<open>str(i)\<close> for an integer: decimal digits, with a sign.\<close>

function dec :: "int \<Rightarrow> string" where
  "dec i = (if i < 10 then [char_of (48 + i)] else dec (i div 10) @ [char_of (48 + i mod 10)])"
  by pat_completeness auto
termination
  by (relation "measure nat") auto

definition str_int :: "int \<Rightarrow> string" where
  "str_int i = (if i < 0 then CHR ''-'' # dec (- i) else dec i)"

text \<open>What an f-string makes of a value: \<open>f"{v}"\<close>.\<close>

fun py_format :: "json \<Rightarrow> string result" where
  "py_format JNull = Inr ''None''"
| "py_format (JBool b) = Inr (if b then ''True'' else ''False'')"
| "py_format (JInt i) = Inr (str_int i)"
| "py_format (JStr s) = Inr s"
| "py_format (JArr xs) = Inl NotModelled"
| "py_format (JObj kvs) = Inl NotModelled"

fun join :: "string \<Rightarrow> string list \<Rightarrow> string" where
  "join sep [] = []"
| "join sep [x] = x"
| "join sep (x # y # ys) = x @ sep @ join sep (y # ys)"

section \<open>SHA-256\<close>

text \<open>
  \<open>hashlib.sha256\<close> (FIPS 180-4) on bytes, with 32-bit words; the working variables of
  the compression function are a tuple.
\<close>

type_synonym u32 = "32 word"
type_synonym sha_state = "u32 \<times> u32 \<times> u32 \<times> u32 \<times> u32 \<times> u32 \<times> u32 \<times> u32"

definition rotr :: "nat \<Rightarrow> u32 \<Rightarrow> u32" where
  "rotr n x = (drop_bit n x) OR (push_bit (32 - n) x)"

definition sha_K :: "u32 list" where
  "sha_K = [
   1116352408, 1899447441, 3049323471, 3921009573, 961987163, 1508970993, 2453635748, 2870763221,
   3624381080, 310598401, 607225278, 1426881987, 1925078388, 2162078206, 2614888103, 3248222580,
   3835390401, 4022224774, 264347078, 604807628, 770255983, 1249150122, 1555081692, 1996064986,
   2554220882, 2821834349, 2952996808, 3210313671, 3336571891, 3584528711, 113926993, 338241895,
   666307205, 773529912, 1294757372, 1396182291, 1695183700, 1986661051, 2177026350, 2456956037,
   2730485921, 2820302411, 3259730800, 3345764771, 3516065817, 3600352804, 4094571909, 275423344,
   430227734, 506948616, 659060556, 883997877, 958139571, 1322822218, 1537002063, 1747873779,
   1955562222, 2024104815, 2227730452, 2361852424, 2428436474, 2756734187, 3204031479, 3329325298]"

definition sha_H0 :: "sha_state" where
  "sha_H0 = (1779033703, 3144134277, 1013904242, 2773480762,
             1359893119, 2600822924, 528734635, 1541459225)"

definition ssig0 :: "u32 \<Rightarrow> u32" where
  "ssig0 x = rotr 7 x XOR rotr 18 x XOR drop_bit 3 x"

definition ssig1 :: "u32 \<Rightarrow> u32" where
  "ssig1 x = rotr 17 x XOR rotr 19 x XOR drop_bit 10 x"

definition bsig0 :: "u32 \<Rightarrow> u32" where
  "bsig0 x = rotr 2 x XOR rotr 13 x XOR rotr 22 x"

definition bsig1 :: "u32 \<Rightarrow> u32" where
  "bsig1 x = rotr 6 x XOR rotr 11 x XOR rotr 25 x"

definition sha_ch :: "u32 \<Rightarrow> u32 \<Rightarrow> u32 \<Rightarrow> u32" where
  "sha_ch x y z = (x AND y) XOR (NOT x AND z)"

definition sha_maj :: "u32 \<Rightarrow> u32 \<Rightarrow> u32 \<Rightarrow> u32" where
  "sha_maj x y z = (x AND y) XOR (x AND z) XOR (y AND z)"

text \<open>The message schedule, most recent word first: 48 words are added to the 16 of the block.\<close>

primrec extend :: "nat \<Rightarrow> u32 list \<Rightarrow> u32 list" where
  "extend 0 ws = ws"
| "extend (Suc n) ws =
     extend n ((ssig1 (ws ! 1) + ws ! 6 + ssig0 (ws ! 14) + ws ! 15) # ws)"

fun round_step :: "sha_state \<Rightarrow> u32 \<Rightarrow> u32 \<Rightarrow> sha_state" where
  "round_step (a, b, c, d, e, f, g, h) k w =
     (let t1 = h + bsig1 e + sha_ch e f g + k + w;
          t2 = bsig0 a + sha_maj a b c
      in (t1 + t2, a, b, c, d + t1, e, f, g))"

primrec rounds :: "u32 list \<Rightarrow> u32 list \<Rightarrow> sha_state \<Rightarrow> sha_state" where
  "rounds [] ws st = st"
| "rounds (k # ks) ws st = rounds ks (tl ws) (round_step st k (hd ws))"

fun add_state :: "sha_state \<Rightarrow> sha_state \<Rightarrow> sha_state" where
  "add_state (a, b, c, d, e, f, g, h) (a', b', c', d', e', f', g', h') =
     (a + a', b + b', c + c', d + d', e + e', f + f', g + g', h + h')"

definition compress :: "sha_state \<Rightarrow> u32 list \<Rightarrow> sha_state" where
  "compress hs block = add_state hs (rounds sha_K (rev (extend 48 (rev block))) hs)"

fun be_words :: "8 word list \<Rightarrow> u32 list" where
  "be_words (a # b # c # d # rest) =
     (push_bit 24 (ucast a) OR push_bit 16 (ucast b) OR push_bit 8 (ucast c) OR ucast d)
       # be_words rest"
| "be_words _ = []"

definition sha_pad :: "8 word list \<Rightarrow> 8 word list" where
  "sha_pad m = m @ [128] @ replicate ((119 - length m mod 64) mod 64) 0
     @ map (\<lambda>i. ucast (drop_bit (8 * i) (word_of_nat (8 * length m) :: 64 word)))
         [7, 6, 5, 4, 3, 2, 1, 0]"

fun blocks :: "nat \<Rightarrow> u32 list \<Rightarrow> u32 list list" where
  "blocks 0 ws = []"
| "blocks (Suc n) ws = take 16 ws # blocks n (drop 16 ws)"

definition be_bytes :: "u32 \<Rightarrow> 8 word list" where
  "be_bytes w = map (\<lambda>i. ucast (drop_bit (8 * i) w)) [3, 2, 1, 0]"

fun state_bytes :: "sha_state \<Rightarrow> 8 word list" where
  "state_bytes (a, b, c, d, e, f, g, h) = concat (map be_bytes [a, b, c, d, e, f, g, h])"

definition sha256 :: "8 word list \<Rightarrow> 8 word list" where
  "sha256 m =
     state_bytes (foldl compress sha_H0
       (blocks (length (be_words (sha_pad m)) div 16) (be_words (sha_pad m))))"

section \<open>Fingerprints\<close>

text \<open>\<open>s.encode('utf-8')\<close> on ASCII text: one byte for each character.\<close>

definition utf8 :: "string \<Rightarrow> 8 word list" where
  "utf8 s = map (\<lambda>c. of_nat (of_char c)) s"

text \<open>\<open>int.from_bytes(hashlib.sha256(data).digest()[:8], byteorder='little', signed=False)\<close>\<close>

definition from_bytes_little :: "8 word list \<Rightarrow> int" where
  "from_bytes_little bs = foldr (\<lambda>b acc. uint b + 256 * acc) bs 0"

definition hash64 :: "string \<Rightarrow> int" where
  "hash64 s = from_bytes_little (take 8 (sha256 (utf8 s)))"

definition calculate_name_hash :: "string \<Rightarrow> int" where
  "calculate_name_hash name = hash64 name"

text \<open>
  \<open>calculate_function_checksum\<close>: the loop appends \<open>", "\<close> before every parameter but
  the first (\<open>i\<close> is the index \<open>enumerate\<close> gives), then \<open>type:name\<close>.
\<close>

fun signature_params :: "nat \<Rightarrow> (string \<times> string) list \<Rightarrow> string list" where
  "signature_params i [] = []"
| "signature_params i ((param_type, param_name) # ps) =
     (if i > 0 then ['', ''] else []) @ [param_type @ '':'' @ param_name]
       @ signature_params (Suc i) ps"

definition function_signature :: "string \<Rightarrow> (string \<times> string) list \<Rightarrow> string" where
  "function_signature func_name parameters =
     concat ([func_name, ''(''] @ signature_params 0 parameters @ ['')''])"

definition calculate_function_checksum :: "string \<Rightarrow> (string \<times> string) list \<Rightarrow> int" where
  "calculate_function_checksum func_name parameters =
     hash64 (function_signature func_name parameters)"

text \<open>\<open>calculate_interface_checksum\<close>: the checksums sorted, joined by commas, in braces.\<close>

definition interface_signature :: "string \<Rightarrow> int list \<Rightarrow> string" where
  "interface_signature interface_name function_checksums =
     interface_name @ ''{'' @ join '','' (map str_int (sort function_checksums)) @ ''}''"

definition calculate_interface_checksum :: "string \<Rightarrow> int list \<Rightarrow> int" where
  "calculate_interface_checksum interface_name function_checksums =
     hash64 (interface_signature interface_name function_checksums)"

section \<open>More name forms\<close>

definition last_of :: "string list \<Rightarrow> string" where
  "last_of xs = (case rev xs of [] \<Rightarrow> [] | x # _ \<Rightarrow> x)"

definition truthy_str :: "string option \<Rightarrow> bool" where
  "truthy_str s = (case s of None \<Rightarrow> False | Some x \<Rightarrow> x \<noteq> [])"

definition convert_wit_to_cxx_namespace :: "string \<Rightarrow> string" where
  "convert_wit_to_cxx_namespace wit_full_name =
     py_replace CHR ''-'' [] ''_''
       (py_replace CHR ''/'' [] ''::'' (py_replace CHR '':'' [] ''::'' wit_full_name))"

definition convert_wit_to_cxx_script_full_interface_name :: "string \<Rightarrow> string" where
  "convert_wit_to_cxx_script_full_interface_name wit_full_interface_name =
     (let result = py_replace CHR ''-'' [] ''_''
            (py_replace CHR ''/'' [] ''::'' (py_replace CHR '':'' [] ''::'' wit_full_interface_name))
      in if \<not> startswith result ''::'' then ''::'' @ result else result)"

definition convert_wit_to_csharp_full_interface_name :: "string \<Rightarrow> string" where
  "convert_wit_to_csharp_full_interface_name wit_full_interface_name =
     (case py_split CHR ''/'' [] wit_full_interface_name of
        [namespace_part, interface_part] \<Rightarrow>
          ''ApplicationWorld.wit.imports.'' @ py_replace CHR '':'' [] ''.'' namespace_part @ ''.''
            @ concat (map capitalize (py_split CHR ''-'' [] interface_part)) @ ''Interop''
      | _ \<Rightarrow> wit_full_interface_name)"

definition convert_wit_to_rust_full_interface_name :: "string \<Rightarrow> string" where
  "convert_wit_to_rust_full_interface_name wit_full_interface_name =
     (let result = py_replace CHR ''-'' [] ''_''
            (py_replace CHR ''/'' [] ''::'' (py_replace CHR '':'' [] ''::'' wit_full_interface_name))
      in if \<not> startswith result ''crate::'' then ''crate::'' @ result else result)"

definition convert_wit_to_rust_function_name :: "string \<Rightarrow> string" where
  "convert_wit_to_rust_function_name wit_function_name =
     py_lower (py_replace CHR ''-'' [] ''_'' wit_function_name)"

definition convert_package_name_to_cxx_namespace :: "string \<Rightarrow> string" where
  "convert_package_name_to_cxx_namespace pkg =
     (let result = py_replace CHR '':'' [] ''::'' pkg
      in if \<not> startswith result ''::'' then ''::'' @ result else result)"

definition convert_package_name_to_csharp_namespace :: "string \<Rightarrow> string" where
  "convert_package_name_to_csharp_namespace pkg =
     ''ApplicationWorld.wit.imports.'' @ py_replace CHR '':'' [] ''.'' pkg"

definition convert_package_name_to_rust_namespace :: "string \<Rightarrow> string" where
  "convert_package_name_to_rust_namespace pkg =
     (let result = py_replace CHR '':'' [] ''::'' pkg
      in if \<not> startswith result ''crate::'' then ''crate::'' @ result else result)"

text \<open>
  \<open>re.sub(r'([a-z])([A-Z])', r'\1_\2', s)\<close>: a match takes both characters, and the scan goes
  on after them.
\<close>

fun camel_boundaries :: "string \<Rightarrow> string" where
  "camel_boundaries (a # b # rest) =
     (if is_lower a \<and> is_upper b then a # CHR ''_'' # b # camel_boundaries rest
      else a # camel_boundaries (b # rest))"
| "camel_boundaries s = s"

definition convert_method_name_to_rust_snake_case :: "string \<Rightarrow> string" where
  "convert_method_name_to_rust_snake_case method_name = py_lower (camel_boundaries method_name)"

text \<open>
  \<open>convert_interface_name_to_wit_format\<close>: \<open>result\<close> starts as the package name and the
  slash, so it is never empty; the dash is left out right after a slash piece.
\<close>

fun wit_interface_loop :: "string list \<Rightarrow> string \<Rightarrow> string list" where
  "wit_interface_loop result [] = result"
| "wit_interface_loop result (ch # rest) =
     (if ch = CHR ''_'' then wit_interface_loop result rest
      else wit_interface_loop
             ((if is_upper ch \<and> result \<noteq> [] \<and> last_of result \<noteq> ''/''
               then result @ [''-''] else result) @ [[to_lower ch]])
             rest)"

definition convert_interface_name_to_wit_format :: "string \<Rightarrow> string \<Rightarrow> string" where
  "convert_interface_name_to_wit_format pkg interface_name =
     concat (wit_interface_loop [pkg, ''/''] interface_name)"

section \<open>Walking the tree\<close>

text \<open>
  Every pass visits a node, updates its fields in place, and then visits the values of
  the node (\<open>for value in node.values()\<close>) or the items of a list, stopping at the first
  exception. \<open>nodes\<close> counts the lists and objects of a value; it is the measure by
  which the passes terminate.
\<close>

primrec nodes :: "json \<Rightarrow> nat" where
  "nodes JNull = 0"
| "nodes (JBool b) = 0"
| "nodes (JInt i) = 0"
| "nodes (JStr s) = 0"
| "nodes (JArr xs) = Suc (sum_list (map nodes xs))"
| "nodes (JObj kvs) = Suc (sum_list (map snd (map (map_prod id nodes) kvs)))"

primrec map_values :: "(json \<Rightarrow> json result) \<Rightarrow> (string \<times> json) list \<Rightarrow> (string \<times> json) list result" where
  "map_values f [] = Inr []"
| "map_values f (p # ps) =
     bind (f (snd p)) (\<lambda>v. bind (map_values f ps) (\<lambda>r. Inr ((fst p, v) # r)))"

primrec map_items :: "(json \<Rightarrow> json result) \<Rightarrow> json list \<Rightarrow> json list result" where
  "map_items f [] = Inr []"
| "map_items f (x # xs) =
     bind (f x) (\<lambda>v. bind (map_items f xs) (\<lambda>r. Inr (v # r)))"

lemma bind_cong [fundef_cong]:
  "m = m' \<Longrightarrow> (\<And>x. m' = Inr x \<Longrightarrow> f x = f' x) \<Longrightarrow> bind m f = bind m' f'"
  by (auto simp: bind_def split: sum.splits)

lemma map_values_cong [fundef_cong]:
  assumes "kvs = kvs'" and "\<And>v. v \<in> snd ` set kvs' \<Longrightarrow> f v = f' v"
  shows "map_values f kvs = map_values f' kvs'"
proof -
  have "(\<forall>v \<in> snd ` set kvs'. f v = f' v) \<longrightarrow> map_values f kvs' = map_values f' kvs'"
    by (induction kvs') simp_all
  then show ?thesis using assms by blast
qed

lemma map_items_cong [fundef_cong]:
  assumes "xs = xs'" and "\<And>v. v \<in> set xs' \<Longrightarrow> f v = f' v"
  shows "map_items f xs = map_items f' xs'"
proof -
  have "(\<forall>v \<in> set xs'. f v = f' v) \<longrightarrow> map_items f xs' = map_items f' xs'"
    by (induction xs') simp_all
  then show ?thesis using assms by blast
qed

lemma nodes_member: "v \<in> set xs \<Longrightarrow> nodes v \<le> sum_list (map nodes xs)"
  by (induction xs) auto

lemma nodes_JObj: "nodes (JObj kvs) = Suc (sum_list (map (\<lambda>kv. nodes (snd kv)) kvs))"
  by (simp add: comp_def)

lemma nodes_value_le:
  "v \<in> snd ` set kvs \<Longrightarrow> nodes v \<le> sum_list (map (\<lambda>kv. nodes (snd kv)) kvs)"
proof (induction kvs)
  case Nil
  then show ?case by simp
next
  case (Cons p kvs)
  show ?case
  proof (cases "v = snd p")
    case True
    then show ?thesis by simp
  next
    case False
    then have "v \<in> snd ` set kvs" using Cons.prems by auto
    then show ?thesis using Cons.IH by simp
  qed
qed

lemma nodes_value: "v \<in> snd ` set kvs \<Longrightarrow> nodes v < nodes (JObj kvs)"
  unfolding nodes_JObj using nodes_value_le [of v kvs] by simp

definition extends :: "(string \<times> json) list \<Rightarrow> (string \<times> json) list \<Rightarrow> bool" where
  "extends kvs kvs' = (\<forall>v \<in> snd ` set kvs'. v \<in> snd ` set kvs \<or> nodes v = 0)"

lemma extends_refl: "extends kvs kvs"
  by (simp add: extends_def)

lemma dict_set_values: "v \<in> snd ` set (dict_set k w kvs) \<Longrightarrow> v = w \<or> v \<in> snd ` set kvs"
  by (induction kvs) (auto split: if_splits)

lemma extends_dict_set:
  "nodes w = 0 \<Longrightarrow> extends kvs kvs' \<Longrightarrow> extends kvs (dict_set k w kvs')"
proof -
  assume w: "nodes w = 0" and e: "extends kvs kvs'"
  show ?thesis
    unfolding extends_def
  proof
    fix v
    assume "v \<in> snd ` set (dict_set k w kvs')"
    then have "v = w \<or> v \<in> snd ` set kvs'" by (rule dict_set_values)
    then show "v \<in> snd ` set kvs \<or> nodes v = 0"
    proof
      assume "v = w"
      then show ?thesis using w by simp
    next
      assume "v \<in> snd ` set kvs'"
      with e show ?thesis unfolding extends_def by (rule bspec)
    qed
  qed
qed

lemma extends_smaller:
  "extends kvs kvs' \<Longrightarrow> v \<in> snd ` set kvs' \<Longrightarrow> nodes v < nodes (JObj kvs)"
proof -
  assume e: "extends kvs kvs'" and m: "v \<in> snd ` set kvs'"
  then have "v \<in> snd ` set kvs \<or> nodes v = 0" unfolding extends_def by (rule bspec)
  then show ?thesis
  proof
    assume "v \<in> snd ` set kvs"
    then show ?thesis by (rule nodes_value)
  next
    assume "nodes v = 0"
    then show ?thesis unfolding nodes_JObj by simp
  qed
qed

section \<open>Interface checksums\<close>

text \<open>
  \<open>add_interface_checksums_recursive\<close> is defined twice in the source; the second
  definition replaces the first when the module is loaded, and is the one modelled. At a
  \<open>CXXRecordDecl\<close> with a truthy name it collects the truthy \<open>function_checksum\<close> fields
  of the \<open>CXXMethodDecl\<close> objects directly in \<open>inner\<close>.
\<close>

fun collect_function_checksums :: "json list \<Rightarrow> json list" where
  "collect_function_checksums [] = []"
| "collect_function_checksums (JObj child # rest) =
     (if kind_is child ''CXXMethodDecl'' \<and> truthy_opt (map_of child ''function_checksum'')
      then get_or child ''function_checksum'' JNull # collect_function_checksums rest
      else collect_function_checksums rest)"
| "collect_function_checksums (_ # rest) = collect_function_checksums rest"

text \<open>
  The collected values are the integers an earlier pass stored; a collected value of
  another type is outside the model (Python would sort and format it by its own rules).
\<close>

fun as_ints :: "json list \<Rightarrow> int list result" where
  "as_ints [] = Inr []"
| "as_ints (JInt i # rest) = bind (as_ints rest) (\<lambda>is. Inr (i # is))"
| "as_ints (_ # rest) = Inl NotModelled"

definition inner_list :: "(string \<times> json) list \<Rightarrow> json list" where
  "inner_list node = (case map_of node ''inner'' of Some (JArr xs) \<Rightarrow> xs | _ \<Rightarrow> [])"

definition interface_checksum_node :: "(string \<times> json) list \<Rightarrow> (string \<times> json) list result" where
  "interface_checksum_node node =
     (if kind_is node ''CXXRecordDecl'' \<and> truthy_opt (map_of node ''name'') then
        bind (py_format (get_or node ''name'' JNull)) (\<lambda>interface_name.
        bind (as_ints (collect_function_checksums (inner_list node))) (\<lambda>function_checksums.
        Inr (dict_set ''interface_checksum''
               (JInt (calculate_interface_checksum interface_name function_checksums)) node)))
      else Inr node)"

lemma interface_checksum_node_extends:
  assumes "interface_checksum_node node = Inr node'"
  shows "extends node node'"
proof (cases "kind_is node ''CXXRecordDecl'' \<and> truthy_opt (map_of node ''name'')")
  case False
  then have "node' = node" using assms by (auto simp: interface_checksum_node_def)
  then show ?thesis by (simp add: extends_refl)
next
  case True
  then obtain c where "node' = dict_set ''interface_checksum'' (JInt c) node"
    using assms by (auto simp: interface_checksum_node_def bind_def split: sum.splits)
  then show ?thesis by (simp add: extends_refl extends_dict_set)
qed

function add_interface_checksums_recursive :: "json \<Rightarrow> json result" where
  "add_interface_checksums_recursive (JObj node) =
     bind (interface_checksum_node node) (\<lambda>node'.
     bind (map_values add_interface_checksums_recursive node') (\<lambda>r. Inr (JObj r)))"
| "add_interface_checksums_recursive (JArr xs) =
     bind (map_items add_interface_checksums_recursive xs) (\<lambda>r. Inr (JArr r))"
| "add_interface_checksums_recursive JNull = Inr JNull"
| "add_interface_checksums_recursive (JBool b) = Inr (JBool b)"
| "add_interface_checksums_recursive (JInt i) = Inr (JInt i)"
| "add_interface_checksums_recursive (JStr s) = Inr (JStr s)"
  by pat_completeness auto
termination
proof (relation "measure nodes")
  show "wf (measure nodes)" by simp
next
  fix node node' v
  assume "interface_checksum_node node = Inr node'" "v \<in> snd ` set node'"
  then show "(v, JObj node) \<in> measure nodes"
    using extends_smaller [OF interface_checksum_node_extends] by simp
next
  fix xs v
  assume "v \<in> set (xs :: json list)"
  then show "(v, JArr xs) \<in> measure nodes" using nodes_member [of v xs] by auto
qed


section \<open>The context-propagating walker\<close>

text \<open>
  The arguments \<open>add_wit_format_names_recursive\<close> passes down: the two command-line names,
  the namespace stack, and what the nearest enclosing interface computed.
\<close>

record ctx =
  package_name :: "string option"
  root_namespace :: "string option"
  namespace_stack :: "json list"
  parent_interface_qualified_name :: "string option"
  parent_wit_interface_fullname :: "string option"
  parent_witgen_cxx_interface_fullname :: "string option"
  parent_witgen_csharp_interface_fullname :: "string option"
  parent_witgen_rust_interface_fullname :: "string option"
  parent_wasm_cxx_interface_fullname :: "string option"
  parent_wasm_csharp_interface_name :: "string option"
  parent_wasm_rust_interface_fullname :: "string option"

text \<open>A run of assignments \<open>node[k] = v\<close>, in order.\<close>

definition assign :: "(string \<times> json) list \<Rightarrow> (string \<times> json) list \<Rightarrow> (string \<times> json) list" where
  "assign kvs node = foldl (\<lambda>d kv. dict_set (fst kv) (snd kv) d) node kvs"

text \<open>
  A truthy name is iterated character by character (\<open>enumerate(name)\<close>): a number or
  \<open>True\<close> raises TypeError there; a non-empty list or object is outside the model.
\<close>

fun as_text :: "json \<Rightarrow> string result" where
  "as_text (JStr s) = Inr s"
| "as_text (JArr xs) = Inl NotModelled"
| "as_text (JObj kvs) = Inl NotModelled"
| "as_text _ = Inl TypeError"

definition str_or_empty :: "string option \<Rightarrow> string" where
  "str_or_empty s = (case s of None \<Rightarrow> [] | Some x \<Rightarrow> x)"

definition enter_namespace :: "ctx \<Rightarrow> (string \<times> json) list \<Rightarrow> ctx" where
  "enter_namespace c node =
     (if kind_is node ''NamespaceDecl'' \<and> truthy_opt (map_of node ''name'')
      then c\<lparr>namespace_stack := namespace_stack c @ [get_or node ''name'' JNull]\<rparr>
      else c)"

definition interface_names :: "ctx \<Rightarrow> (string \<times> json) list \<Rightarrow> (ctx \<times> (string \<times> json) list) result" where
  "interface_names c node =
     (if kind_is node ''CXXRecordDecl'' \<and> truthy_str (package_name c)
         \<and> truthy_opt (map_of node ''name'')
      then bind (as_text (get_or node ''name'' JNull)) (\<lambda>interface_name.
        let root_given = truthy_str (root_namespace c);
            root = str_or_empty (root_namespace c);
            wit_interface_fullname =
              convert_interface_name_to_wit_format (str_or_empty (package_name c)) interface_name;
            wit_interface_name =
              (if CHR ''/'' \<in> set wit_interface_fullname
               then last_of (py_split CHR ''/'' [] wit_interface_fullname)
               else wit_interface_fullname);
            witgen_cxx_interface_fullname =
              convert_wit_to_cxx_script_full_interface_name wit_interface_fullname;
            cxx_script_interface_fullname =
              (if root_given then root @ ''::'' @ interface_name
               else convert_wit_to_cxx_script_full_interface_name wit_interface_fullname);
            cxx_script_interface_name =
              last_of (py_split CHR '':'' '':'' cxx_script_interface_fullname);
            csharp_interface_fullname =
              convert_wit_to_csharp_full_interface_name wit_interface_fullname;
            witgen_rust_interface_fullname =
              convert_wit_to_rust_full_interface_name wit_interface_fullname;
            rust_interface_fullname =
              (if root_given
               then (''crate::'' @ py_lower (py_replace CHR '':'' '':'' ''::'' root))
                      @ ''::'' @ interface_name
               else convert_wit_to_rust_full_interface_name wit_interface_fullname);
            full_qualified_name = ''::'' @ root @ ''::'' @ interface_name;
            interface_name_hash = calculate_name_hash full_qualified_name
        in Inr
          (if root_given
           then c\<lparr>parent_interface_qualified_name := Some full_qualified_name,
                  parent_wit_interface_fullname := Some wit_interface_fullname,
                  parent_witgen_cxx_interface_fullname := Some witgen_cxx_interface_fullname,
                  parent_witgen_csharp_interface_fullname := Some csharp_interface_fullname,
                  parent_witgen_rust_interface_fullname := Some witgen_rust_interface_fullname,
                  parent_wasm_cxx_interface_fullname := Some cxx_script_interface_fullname,
                  parent_wasm_csharp_interface_name := Some interface_name,
                  parent_wasm_rust_interface_fullname := Some rust_interface_fullname\<rparr>
           else c,
           assign
             ([(''wit_interface_fullname'', JStr wit_interface_fullname),
               (''wit_interface_name'', JStr wit_interface_name),
               (''witgen_cxx_interface_fullname'', JStr witgen_cxx_interface_fullname),
               (''wasm_cxx_interface_fullname'', JStr cxx_script_interface_fullname),
               (''wasm_cxx_interface_name'', JStr cxx_script_interface_name),
               (''witgen_csharp_interface_fullname'', JStr csharp_interface_fullname),
               (''wasm_csharp_interface_name'', JStr interface_name),
               (''witgen_rust_interface_fullname'', JStr witgen_rust_interface_fullname),
               (''wasm_rust_interface_fullname'', JStr rust_interface_fullname),
               (''wasm_rust_interface_name'', JStr interface_name)]
              @ (if root_given
                 then [(''wasm_cxx_namespace_fullname'', JStr root),
                       (''wasm_dotnet_script_namespace_fullname'',
                          JStr (py_replace CHR '':'' '':'' ''.'' root)),
                       (''wasm_rust_namespace_fullname'',
                          JStr (py_lower (py_replace CHR '':'' '':'' ''.'' root))),
                       (''full_qualified_name'', JStr full_qualified_name),
                       (''interface_name_hash'', JInt interface_name_hash),
                       (''interface_id'', JInt interface_name_hash)]
                 else []))
             node))
      else Inr (c, node))"

text \<open>The \<open>(param_type, param_name)\<close> pairs of the \<open>ParmVarDecl\<close> objects in \<open>inner\<close>.\<close>

fun collect_params :: "json list \<Rightarrow> (json \<times> json) list" where
  "collect_params [] = []"
| "collect_params (JObj child # rest) =
     (if kind_is child ''ParmVarDecl''
      then ((case map_of child ''type'' of
               Some (JObj t) \<Rightarrow> get_or t ''qualType'' (JStr [])
             | _ \<Rightarrow> JStr []),
            get_or child ''name'' (JStr [])) # collect_params rest
      else collect_params rest)"
| "collect_params (_ # rest) = collect_params rest"

text \<open>The f-string \<open>f"{param_type}:{param_name}"\<close> formats both values of a pair.\<close>

fun format_params :: "(json \<times> json) list \<Rightarrow> (string \<times> string) list result" where
  "format_params [] = Inr []"
| "format_params ((t, n) # rest) =
     bind (py_format t) (\<lambda>param_type.
     bind (py_format n) (\<lambda>param_name.
     bind (format_params rest) (\<lambda>ps. Inr ((param_type, param_name) # ps))))"

text \<open>The assignments made only when a string handed down by the interface is truthy.\<close>

definition with_parent :: "string option \<Rightarrow> (string \<Rightarrow> (string \<times> json) list) \<Rightarrow> (string \<times> json) list" where
  "with_parent parent f = (if truthy_str parent then f (str_or_empty parent) else [])"

definition function_names :: "ctx \<Rightarrow> (string \<times> json) list \<Rightarrow> (string \<times> json) list result" where
  "function_names c node =
     (if kind_is node ''CXXMethodDecl'' \<and> truthy_opt (map_of node ''name'')
      then bind (as_text (get_or node ''name'' JNull)) (\<lambda>func_name.
           bind (format_params (collect_params (inner_list node))) (\<lambda>params.
        let wit_func_name = convert_function_name_to_wit_format func_name;
            witgen_cxx_func_name = convert_wit_to_cxx_function_name wit_func_name;
            witgen_csharp_func_name = witgen_cxx_func_name;
            witgen_rust_func_name = convert_wit_to_rust_function_name wit_func_name;
            rust_wrapper_method_name = convert_method_name_to_rust_snake_case func_name;
            cxx_function =
              (case py_replace CHR ''-'' [] ''_'' wit_func_name of
                 [] \<Rightarrow> [] | ch # rest \<Rightarrow> to_upper ch # rest)
        in Inr (assign
             ([(''wit_function_name'', JStr wit_func_name),
               (''witgen_cxx_function_name'', JStr witgen_cxx_func_name)]
              @ with_parent (parent_witgen_cxx_interface_fullname c) (\<lambda>p.
                  [(''witgen_cxx_function_fullname'', JStr (p @ ''::'' @ witgen_cxx_func_name))])
              @ [(''witgen_csharp_function_name'', JStr witgen_csharp_func_name)]
              @ with_parent (parent_witgen_csharp_interface_fullname c) (\<lambda>p.
                  [(''witgen_csharp_function_fullname'', JStr (p @ ''.'' @ witgen_csharp_func_name))])
              @ [(''witgen_rust_function_name'', JStr witgen_rust_func_name)]
              @ with_parent (parent_witgen_rust_interface_fullname c) (\<lambda>p.
                  [(''witgen_rust_function_fullname'', JStr (p @ ''::'' @ witgen_rust_func_name))])
              @ [(''wasm_cxx_function_name'', JStr func_name)]
              @ with_parent (parent_wasm_cxx_interface_fullname c) (\<lambda>p.
                  [(''wasm_cxx_function_fullname'', JStr (p @ ''::'' @ func_name))])
              @ [(''wasm_csharp_function_name'', JStr func_name)]
              @ with_parent (parent_wasm_csharp_interface_name c) (\<lambda>p.
                  [(''wasm_csharp_function_fullname'', JStr (p @ ''.'' @ func_name))])
              @ [(''rust_wrapper_method_name'', JStr rust_wrapper_method_name),
                 (''wasm_rust_function_name'', JStr rust_wrapper_method_name)]
              @ with_parent (parent_wasm_rust_interface_fullname c) (\<lambda>p.
                  [(''wasm_rust_function_fullname'', JStr (p @ ''::'' @ rust_wrapper_method_name))])
              @ with_parent (parent_wit_interface_fullname c) (\<lambda>p.
                  [(''wit_interface_fullname'', JStr p),
                   (''cxx_namespace'', JStr (convert_wit_to_cxx_namespace p)),
                   (''cxx_function_name'', JStr cxx_function)])
              @ with_parent (parent_interface_qualified_name c) (\<lambda>p.
                  [(''function_name_hash'', JInt (calculate_name_hash (p @ ''::'' @ func_name))),
                   (''function_id'', JInt (calculate_name_hash (p @ ''::'' @ func_name)))])
              @ [(''function_checksum'', JInt (calculate_function_checksum func_name params))])
             node)))
      else Inr node)"

text \<open>One node of the walk: the namespace, the interface and the method branch, in order.\<close>

definition wit_names_node :: "ctx \<Rightarrow> (string \<times> json) list \<Rightarrow> (ctx \<times> (string \<times> json) list) result" where
  "wit_names_node c node =
     bind (interface_names (enter_namespace c node) node) (\<lambda>r.
     bind (function_names (fst r) (snd r)) (\<lambda>node'. Inr (fst r, node')))"

lemma extends_assign:
  "list_all (\<lambda>kv. nodes (snd kv) = 0) kvs \<Longrightarrow> extends node node' \<Longrightarrow> extends node (assign kvs node')"
  unfolding assign_def
  by (induction kvs arbitrary: node') (simp_all add: extends_dict_set)

lemma with_parent_prim:
  "(\<And>p. list_all (\<lambda>kv. nodes (snd kv) = 0) (f p)) \<Longrightarrow>
   list_all (\<lambda>kv. nodes (snd kv) = 0) (with_parent parent f)"
  by (simp add: with_parent_def)

lemma interface_names_extends:
  "interface_names c node = Inr (c', node') \<Longrightarrow> extends node node'"
  by (auto simp: interface_names_def bind_def Let_def extends_refl
      intro!: extends_assign split: if_splits sum.splits)

lemma function_names_extends:
  "function_names c node = Inr node' \<Longrightarrow> extends node node'"
  by (auto simp: function_names_def bind_def Let_def extends_refl
      intro!: extends_assign with_parent_prim split: if_splits sum.splits)

lemma extends_trans:
  assumes "extends a b" and "extends b c"
  shows "extends a c"
  unfolding extends_def
proof
  fix v
  assume "v \<in> snd ` set c"
  with assms(2) have "v \<in> snd ` set b \<or> nodes v = 0"
    unfolding extends_def by (rule bspec)
  then show "v \<in> snd ` set a \<or> nodes v = 0"
  proof
    assume "v \<in> snd ` set b"
    with assms(1) show ?thesis unfolding extends_def by (rule bspec)
  next
    assume "nodes v = 0"
    then show ?thesis by simp
  qed
qed

lemma wit_names_node_extends:
  assumes "wit_names_node c node = Inr r"
  shows "extends node (snd r)"
proof -
  obtain c1 node1 where a: "interface_names (enter_namespace c node) node = Inr (c1, node1)"
    using assms by (cases "interface_names (enter_namespace c node) node")
      (auto simp: wit_names_node_def bind_def)
  then obtain node2 where b: "function_names c1 node1 = Inr node2" and r: "r = (c1, node2)"
    using assms by (cases "function_names c1 node1") (auto simp: wit_names_node_def bind_def)
  show ?thesis
    using extends_trans [OF interface_names_extends [OF a] function_names_extends [OF b]] r
    by simp
qed

function add_wit_format_names_recursive :: "ctx \<Rightarrow> json \<Rightarrow> json result" where
  "add_wit_format_names_recursive c (JObj node) =
     bind (wit_names_node c node) (\<lambda>r.
     bind (map_values (add_wit_format_names_recursive (fst r)) (snd r)) (\<lambda>vs. Inr (JObj vs)))"
| "add_wit_format_names_recursive c (JArr xs) =
     bind (map_items (add_wit_format_names_recursive c) xs) (\<lambda>vs. Inr (JArr vs))"
| "add_wit_format_names_recursive c JNull = Inr JNull"
| "add_wit_format_names_recursive c (JBool b) = Inr (JBool b)"
| "add_wit_format_names_recursive c (JInt i) = Inr (JInt i)"
| "add_wit_format_names_recursive c (JStr s) = Inr (JStr s)"
  by pat_completeness auto
termination
proof (relation "measure (\<lambda>p. nodes (snd p))")
  show "wf (measure (\<lambda>p. nodes (snd p)))" by simp
next
  fix c node r v
  assume "wit_names_node c node = Inr r" "v \<in> snd ` set (snd r)"
  then show "((fst r, v), (c, JObj node)) \<in> measure (\<lambda>p. nodes (snd p))"
    using extends_smaller [OF wit_names_node_extends] by simp
next
  fix c xs v
  assume "v \<in> set (xs :: json list)"
  then show "((c, v), (c, JArr xs)) \<in> measure (\<lambda>p. nodes (snd p))"
    using nodes_member [of v xs] by auto
qed

section \<open>The examples of the docstrings\<close>

lemma example_wit_interface:
  "convert_interface_name_to_wit_format ''arieo:sample'' ''ISample'' = ''arieo:sample/i-sample''"
  by code_simp

lemma example_cxx_namespace:
  "convert_wit_to_cxx_namespace ''arieo:sample/i-sample'' = ''arieo::sample::i_sample''"
  by code_simp

lemma example_cxx_script_interface:
  "convert_wit_to_cxx_script_full_interface_name ''arieo:sample/i-sample''
     = ''::arieo::sample::i_sample''"
  by code_simp

lemma example_csharp_interface:
  "convert_wit_to_csharp_full_interface_name ''arieo:sample/i-sample''
     = ''ApplicationWorld.wit.imports.arieo.sample.ISampleInterop''"
  by code_simp

lemma example_rust_interface:
  "convert_wit_to_rust_full_interface_name ''arieo:sample/i-sample''
     = ''crate::arieo::sample::i_sample''"
  by code_simp

lemma example_rust_function:
  "convert_wit_to_rust_function_name ''do-somthing1'' = ''do_somthing1''"
  by code_simp

lemma example_package_cxx:
  "convert_package_name_to_cxx_namespace ''arieo:sample'' = ''::arieo::sample''"
  by code_simp

lemma example_package_csharp:
  "convert_package_name_to_csharp_namespace ''arieo:sample''
     = ''ApplicationWorld.wit.imports.arieo.sample''"
  by code_simp

lemma example_package_rust:
  "convert_package_name_to_rust_namespace ''arieo:sample'' = ''crate::arieo::sample''"
  by code_simp

lemma example_rust_snake_case:
  "convert_method_name_to_rust_snake_case ''doSomthing_1'' = ''do_somthing_1''"
  by code_simp

lemma example_cxx_function:
  "convert_wit_to_cxx_function_name ''do-somthing1'' = ''DoSomthing1''"
  by code_simp

lemma example_split_namespace:
  "py_split CHR '':'' '':'' ''Arieo::Interface::Sample'' = [''Arieo'', ''Interface'', ''Sample'']"
  by code_simp

lemma example_replace_namespace:
  "py_replace CHR '':'' '':'' ''.'' ''Arieo::Interface::Sample'' = ''Arieo.Interface.Sample''"
  by code_simp

section \<open>Properties of the character functions\<close>

lemma of_char_bound: "(of_char c :: nat) < 256"
proof -
  have "(of_char c :: nat) = of_char c mod 256"
    by (rule of_char_mod_256 [symmetric])
  also have "\<dots> < 256" by simp
  finally show ?thesis .
qed

lemma of_char_to_lower:
  "(of_char (to_lower c) :: nat) = (if is_upper c then of_char c + 32 else of_char c)"
  by (simp add: to_lower_def is_upper_def)

lemma of_char_to_upper:
  "(of_char (to_upper c) :: nat) = (if is_lower c then of_char c - 32 else of_char c)"
  using of_char_bound [of c] by (auto simp: to_upper_def is_lower_def)

lemma char_eq_of_char: "(c = d) = ((of_char c :: nat) = of_char d)"
  by (metis of_char_eq_iff)

lemma not_upper_to_lower: "\<not> is_upper (to_lower c)"
  by (simp add: is_upper_def of_char_to_lower)

lemma to_lower_idem: "to_lower (to_lower c) = to_lower c"
  using not_upper_to_lower [of c] by (simp add: to_lower_def [of "to_lower c"])

lemma to_lower_to_upper: "to_lower (to_upper c) = to_lower c"
  by (auto simp: char_eq_of_char of_char_to_lower of_char_to_upper is_upper_def is_lower_def)

lemma to_upper_to_lower: "to_upper (to_lower c) = to_upper c"
  by (auto simp: char_eq_of_char of_char_to_lower of_char_to_upper is_upper_def is_lower_def)

lemma to_lower_not_dash: "to_lower c = CHR ''-'' \<longleftrightarrow> c = CHR ''-''"
  by (auto simp: char_eq_of_char of_char_to_lower is_upper_def)

lemma to_lower_not_underscore: "to_lower c = CHR ''_'' \<longleftrightarrow> c = CHR ''_''"
  by (auto simp: char_eq_of_char of_char_to_lower is_upper_def)

lemma alnum_not_dash: "is_alnum c \<Longrightarrow> c \<noteq> CHR ''-''"
  by (auto simp: is_alnum_def is_upper_def is_lower_def is_digit_def)

lemma alnum_not_underscore: "is_alnum c \<Longrightarrow> c \<noteq> CHR ''_''"
  by (auto simp: is_alnum_def is_upper_def is_lower_def is_digit_def)

lemma alnum_to_upper_not_dash: "is_alnum c \<Longrightarrow> to_upper c \<noteq> CHR ''-''"
  by (auto simp: char_eq_of_char of_char_to_upper is_alnum_def is_upper_def is_lower_def
      is_digit_def)

lemma alnum_to_upper_not_underscore: "is_alnum c \<Longrightarrow> to_upper c \<noteq> CHR ''_''"
  by (auto simp: char_eq_of_char of_char_to_upper is_alnum_def is_upper_def is_lower_def
      is_digit_def)

section \<open>Kebab-case and PascalCase\<close>

lemma wit_loop_kebab:
  "\<forall>p \<in> set acc. p \<noteq> [] \<Longrightarrow> concat (wit_loop acc s) = foldl kebab_step (concat acc) s"
proof (induction s arbitrary: acc)
  case Nil
  then show ?case by simp
next
  case (Cons ch rest)
  have ne: "(acc \<noteq> []) = (concat acc \<noteq> [])"
    using Cons.prems by (cases acc) auto
  show ?case
  proof (cases "ch = CHR ''_''")
    case True
    then show ?thesis using Cons by (simp add: kebab_step_def)
  next
    case False
    let ?acc' = "(if is_upper ch \<and> acc \<noteq> [] then acc @ [''-''] else acc) @ [[to_lower ch]]"
    have "\<forall>p \<in> set ?acc'. p \<noteq> []" using Cons.prems by auto
    then have "concat (wit_loop ?acc' rest) = foldl kebab_step (concat ?acc') rest"
      by (rule Cons.IH)
    moreover have "concat ?acc' = kebab_step (concat acc) ch"
      using False ne by (simp add: kebab_step_def)
    ultimately show ?thesis using False by simp
  qed
qed

lemma kebab_refines: "convert_function_name_to_wit_format s = kebab_spec s"
  using wit_loop_kebab [of "[]" s]
  by (simp add: convert_function_name_to_wit_format_def kebab_spec_def)

lemma kebab_DoSomething1: "convert_function_name_to_wit_format ''DoSomething1'' = ''do-something1''"
  by code_simp

lemma kebab_doSomething1: "convert_function_name_to_wit_format ''doSomething1'' = ''do-something1''"
  by code_simp

lemma foldl_kebab_prefix:
  "out \<noteq> [] \<Longrightarrow> \<exists>t. foldl kebab_step out s = out @ t"
proof (induction s arbitrary: out)
  case Nil then show ?case by simp
next
  case (Cons c s)
  show ?case
  proof (cases "c = CHR ''_''")
    case True then show ?thesis using Cons by (simp add: kebab_step_def)
  next
    case False
    have "kebab_step out c = out @ ((if is_upper c \<and> out \<noteq> [] then ''-'' else []) @ [to_lower c])"
      using False by (simp add: kebab_step_def)
    then obtain u where u: "kebab_step out c = out @ u" by blast
    then have "kebab_step out c \<noteq> []" using Cons.prems by simp
    from Cons.IH [OF this] obtain t
      where "foldl kebab_step (kebab_step out c) s = kebab_step out c @ t" by blast
    then have "foldl kebab_step out (c # s) = out @ (u @ t)" using u by simp
    then show ?thesis by blast
  qed
qed

lemma kebab_leading_upper:
  "is_upper c \<Longrightarrow> hd (convert_function_name_to_wit_format (c # rest)) = to_lower c"
proof -
  assume u: "is_upper c"
  then have nu: "c \<noteq> CHR ''_''" by (auto simp: is_upper_def)
  obtain t where "foldl kebab_step [to_lower c] rest = [to_lower c] @ t"
    using foldl_kebab_prefix [of "[to_lower c]" rest] by blast
  then show ?thesis using nu by (simp add: kebab_refines kebab_spec_def kebab_step_def)
qed

text \<open>
  Claim C4. For every input string the kebab-case conversion of the source equals the
  rule of the specification (characters left to right, underscores dropped, a dash before
  an uppercase character exactly when the output so far is non-empty, every kept character
  lowercased); \<open>DoSomething1\<close> and \<open>doSomething1\<close> both give \<open>do-something1\<close>; and
  a leading uppercase character is emitted lowercased as the first output character, so
  it never produces a leading dash.
\<close>

theorem kebab_case_conversion:
  "convert_function_name_to_wit_format s = kebab_spec s
   \<and> convert_function_name_to_wit_format ''DoSomething1'' = ''do-something1''
   \<and> convert_function_name_to_wit_format ''doSomething1'' = ''do-something1''
   \<and> (is_upper c \<longrightarrow>
        hd (convert_function_name_to_wit_format (c # rest)) = to_lower c
        \<and> to_lower c \<noteq> CHR ''-'')"
  using kebab_refines [of s] kebab_DoSomething1 kebab_doSomething1
    kebab_leading_upper [of c rest]
  by (auto simp: to_lower_not_dash is_upper_def)

theorem kebab_case_conversion_witness:
  "is_upper CHR ''D''
   \<and> kebab_spec ''DoSomething1'' = ''do-something1''
   \<and> hd (convert_function_name_to_wit_format ''DoSomething1'') = CHR ''d''"
proof -
  have h: "is_upper CHR ''D''" by code_simp
  have l: "to_lower CHR ''D'' = CHR ''d''" by code_simp
  note t = kebab_case_conversion [of "''DoSomething1''" "CHR ''D''" "''oSomething1''"]
  from t have a: "kebab_spec ''DoSomething1'' = ''do-something1''" by metis
  from t h have c: "hd (convert_function_name_to_wit_format ''DoSomething1'') = to_lower CHR ''D''"
    by blast
  show ?thesis using h a c l by simp
qed

lemma split_no_sep:
  "s0 \<notin> set s \<Longrightarrow> split_from s0 ss cur s = [cur @ s]"
  by (induction s arbitrary: cur) auto

lemma pascal_no_dash:
  "CHR ''-'' \<notin> set s \<Longrightarrow> convert_wit_to_cxx_function_name s = capitalize s"
  by (simp add: convert_wit_to_cxx_function_name_def py_split_def split_no_sep)

lemma foldl_kebab_lower:
  "\<forall>c \<in> set ds. is_alnum c \<Longrightarrow> foldl kebab_step out (map to_lower ds) = out @ map to_lower ds"
proof (induction ds arbitrary: out)
  case Nil then show ?case by simp
next
  case (Cons d ds)
  have "to_lower d \<noteq> CHR ''_''" using Cons.prems alnum_not_underscore [of d]
    by (simp add: to_lower_not_underscore)
  then have "kebab_step out (to_lower d) = out @ [to_lower d]"
    by (simp add: kebab_step_def not_upper_to_lower to_lower_idem)
  then show ?case using Cons by simp
qed

lemma kebab_capitalize:
  assumes "\<forall>c \<in> set x. is_alnum c"
  shows "convert_function_name_to_wit_format (capitalize x) = map to_lower x"
proof (cases x)
  case Nil then show ?thesis by (simp add: kebab_refines kebab_spec_def capitalize_def)
next
  case (Cons c cs)
  have "to_upper c \<noteq> CHR ''_''" using assms Cons by (simp add: alnum_to_upper_not_underscore)
  then have "kebab_step [] (to_upper c) = [to_lower c]"
    by (simp add: kebab_step_def to_lower_to_upper)
  moreover have "foldl kebab_step [to_lower c] (map to_lower cs) = [to_lower c] @ map to_lower cs"
    using assms Cons by (intro foldl_kebab_lower) simp
  ultimately show ?thesis using Cons by (simp add: kebab_refines kebab_spec_def capitalize_def)
qed

lemma capitalize_lower: "capitalize (map to_lower x) = capitalize x"
  by (cases x) (simp_all add: capitalize_def to_upper_to_lower to_lower_idem)

text \<open>
  Claim C5. For every identifier \<open>x\<close> made of ASCII letters and digits only (no
  underscore, no dash), converting to PascalCase, then to kebab-case, then to PascalCase
  again gives the same string as converting to PascalCase once.
\<close>

theorem pascal_kebab_roundtrip:
  assumes "\<forall>c \<in> set x. is_alnum c"
  shows "convert_wit_to_cxx_function_name
           (convert_function_name_to_wit_format (convert_wit_to_cxx_function_name x))
         = convert_wit_to_cxx_function_name x"
proof -
  have nd: "CHR ''-'' \<notin> set x" using assms alnum_not_dash by blast
  have nd2: "CHR ''-'' \<notin> set (map to_lower x)"
  proof
    assume "CHR ''-'' \<in> set (map to_lower x)"
    then obtain c where "c \<in> set x" "to_lower c = CHR ''-''" by auto
    then show False using nd by (simp add: to_lower_not_dash)
  qed
  show ?thesis
    using assms by (simp add: pascal_no_dash [OF nd] kebab_capitalize pascal_no_dash [OF nd2] capitalize_lower)
qed

theorem pascal_kebab_roundtrip_witness:
  "list_all is_alnum ''DoSomething1'' \<and>
   convert_wit_to_cxx_function_name ''DoSomething1'' = ''Dosomething1'' \<and>
   convert_wit_to_cxx_function_name
     (convert_function_name_to_wit_format (convert_wit_to_cxx_function_name ''DoSomething1''))
     = ''Dosomething1''"
proof -
  have h: "\<forall>c \<in> set ''DoSomething1''. is_alnum c"
    by code_simp
  have v: "convert_wit_to_cxx_function_name ''DoSomething1'' = ''Dosomething1''"
    by code_simp
  show ?thesis using h v pascal_kebab_roundtrip [OF h] by (simp add: list_all_iff)
qed

section \<open>Interface checksums: order and missing checksums\<close>

lemma sort_mset_eq: "mset (xs :: int list) = mset ys \<Longrightarrow> sort xs = sort ys"
  by (rule properties_for_sort) simp_all

text \<open>
  Claim C2, as amended. For one interface name, two lists of member function checksums
  that are permutations of each other (the same checksums with the same multiplicities)
  give the same interface checksum.
\<close>

theorem interface_checksum_permutation:
  "mset cs = mset cs' \<Longrightarrow>
   calculate_interface_checksum name cs = calculate_interface_checksum name cs'"
  using sort_mset_eq [of cs cs']
  by (simp add: calculate_interface_checksum_def interface_signature_def)

theorem interface_checksum_permutation_witness:
  "mset [7, 5 :: int] = mset [5, 7] \<and>
   calculate_interface_checksum ''I'' [7, 5] = calculate_interface_checksum ''I'' [5, 7]"
proof -
  have h: "mset [7, 5 :: int] = mset [5, 7]" by (simp add: add_mset_commute)
  show ?thesis using h interface_checksum_permutation [OF h, of "''I''"] by simp
qed




lemma map_of_dict_set: "map_of (dict_set k v d) = (map_of d)(k \<mapsto> v)"
  by (induction d) (auto simp: fun_eq_iff)










section \<open>The walk: qualified names and function checksums\<close>

definition field_of :: "json result \<Rightarrow> string \<Rightarrow> json option" where
  "field_of r k = (case r of Inr (JObj d) \<Rightarrow> map_of d k | _ \<Rightarrow> None)"

lemma map_of_assign: "map_of (assign kvs node) = map_of node ++ map_of (rev kvs)"
  unfolding assign_def
proof (induction kvs arbitrary: node)
  case Nil
  then show ?case by simp
next
  case (Cons kv kvs)
  have "map_of (dict_set (fst kv) (snd kv) node) ++ map_of (rev kvs)
        = map_of node ++ map_of (rev kvs @ [kv])"
    by (cases kv) (simp add: map_of_dict_set fun_eq_iff map_add_def split: option.splits)
  then show ?case using Cons by simp
qed

lemma map_values_field:
  "map_values f node = Inr vs \<Longrightarrow> map_of node k = Some v \<Longrightarrow>
   \<exists>v'. f v = Inr v' \<and> map_of vs k = Some v'"
proof (induction node arbitrary: vs)
  case Nil
  then show ?case by simp
next
  case (Cons p node)
  from Cons.prems(1) obtain v0 r where
    f0: "f (snd p) = Inr v0" and r: "map_values f node = Inr r" and vs: "vs = (fst p, v0) # r"
    by (auto simp: bind_def split: sum.splits)
  show ?case
  proof (cases "fst p = k")
    case True
    then have "v = snd p" using Cons.prems(2) by (cases p) simp
    then show ?thesis using True f0 vs by simp
  next
    case False
    then have "map_of node k = Some v" using Cons.prems(2) by (cases p) (simp split: if_splits)
    from Cons.IH [OF r this] show ?thesis using False vs by simp
  qed
qed

lemma walk_object_field:
  assumes "add_wit_format_names_recursive c (JObj node) = Inr r"
    and "wit_names_node c node = Inr (c', node')"
    and "map_of node' k = Some v"
    and "nodes v = 0"
  shows "field_of (Inr r) k = Some v"
proof -
  from assms(1,2) obtain vs where
    m: "map_values (add_wit_format_names_recursive c') node' = Inr vs" and r: "r = JObj vs"
    by (auto simp: bind_def split: sum.splits)
  from map_values_field [OF m assms(3)] obtain v' where
    "add_wit_format_names_recursive c' v = Inr v'" "map_of vs k = Some v'" by auto
  moreover have "add_wit_format_names_recursive c' v = Inr v"
    using assms(4) by (cases v) simp_all
  ultimately show ?thesis using r by (simp add: field_of_def)
qed

lemma interface_names_other_kind:
  "\<not> kind_is node ''CXXRecordDecl'' \<Longrightarrow> interface_names c node = Inr (c, node)"
  by (simp add: interface_names_def)

lemma function_names_other_kind:
  "\<not> kind_is node ''CXXMethodDecl'' \<Longrightarrow> function_names c node = Inr node"
  by (simp add: function_names_def)

lemma kind_is_assign:
  "''kind'' \<notin> fst ` set kvs \<Longrightarrow> kind_is (assign kvs node) k = kind_is node k"
  by (simp add: kind_is_def map_of_assign map_add_def map_of_eq_None_iff [THEN iffD2]
      split: option.splits)

lemma interface_names_full_qualified_name:
  assumes "kind_is node ''CXXRecordDecl''"
    and "map_of node ''name'' = Some (JStr name)" and "name \<noteq> []"
    and "package_name c = Some pkg" and "pkg \<noteq> []"
    and "root_namespace c = Some root" and "root \<noteq> []"
  shows "\<exists>c' node'. interface_names c node = Inr (c', node')
     \<and> kind_is node' ''CXXRecordDecl''
     \<and> map_of node' ''full_qualified_name'' = Some (JStr (''::'' @ root @ ''::'' @ name))
     \<and> map_of node' ''interface_name_hash''
         = Some (JInt (calculate_name_hash (''::'' @ root @ ''::'' @ name)))"
  using assms
  by (simp add: interface_names_def truthy_str_def truthy_opt_def get_or_def bind_def Let_def
      str_or_empty_def map_of_assign kind_is_def)


lemma interface_qualified_name_field:
  assumes "add_wit_format_names_recursive c (JObj node) = Inr r"
    and "kind_is node ''CXXRecordDecl''"
    and "map_of node ''name'' = Some (JStr name)" and "name \<noteq> []"
    and "package_name c = Some pkg" and "pkg \<noteq> []"
    and "root_namespace c = Some root" and "root \<noteq> []"
  shows "field_of (Inr r) ''full_qualified_name'' = Some (JStr (''::'' @ root @ ''::'' @ name))
     \<and> field_of (Inr r) ''interface_name_hash''
         = Some (JInt (calculate_name_hash (''::'' @ root @ ''::'' @ name)))"
proof -
  have k: "\<not> kind_is node ''NamespaceDecl''" using assms(2) by (simp add: kind_is_def)
  then have e: "enter_namespace c node = c" by (simp add: enter_namespace_def)
  from interface_names_full_qualified_name [OF assms(2-8)] obtain c' node' where
    i: "interface_names c node = Inr (c', node')"
    and k': "kind_is node' ''CXXRecordDecl''"
    and q: "map_of node' ''full_qualified_name'' = Some (JStr (''::'' @ root @ ''::'' @ name))"
    and h: "map_of node' ''interface_name_hash''
         = Some (JInt (calculate_name_hash (''::'' @ root @ ''::'' @ name)))"
    by auto
  have "\<not> kind_is node' ''CXXMethodDecl''" using k' by (simp add: kind_is_def)
  then have "function_names c' node' = Inr node'" by (rule function_names_other_kind)
  then have w: "wit_names_node c node = Inr (c', node')"
    using i e by (simp add: wit_names_node_def bind_def)
  show ?thesis
    using walk_object_field [OF assms(1) w q] walk_object_field [OF assms(1) w h] by simp
qed

definition sample_ctx :: ctx where
  "sample_ctx = \<lparr>package_name = Some ''arieo:sample'',
     root_namespace = Some ''Arieo::Interface::Sample'',
     namespace_stack = [],
     parent_interface_qualified_name = None,
     parent_wit_interface_fullname = None,
     parent_witgen_cxx_interface_fullname = None,
     parent_witgen_csharp_interface_fullname = None,
     parent_witgen_rust_interface_fullname = None,
     parent_wasm_cxx_interface_fullname = None,
     parent_wasm_csharp_interface_name = None,
     parent_wasm_rust_interface_fullname = None\<rparr>"

definition sample_interface :: "(string \<times> json) list" where
  "sample_interface = [(''kind'', JStr ''CXXRecordDecl''), (''name'', JStr ''ISample'')]"

definition returns :: "'a result \<Rightarrow> bool" where
  "returns r = (case r of Inl e \<Rightarrow> False | Inr x \<Rightarrow> True)"

lemma returnsE: "returns r \<Longrightarrow> \<exists>x. r = Inr x"
  by (cases r) (simp_all add: returns_def)

lemma sample_interface_walk:
  "returns (add_wit_format_names_recursive sample_ctx (JObj sample_interface))"
  by (simp add: returns_def wit_names_node_def interface_names_def function_names_def
      enter_namespace_def sample_interface_def sample_ctx_def kind_is_def truthy_str_def
      truthy_opt_def get_or_def bind_def Let_def str_or_empty_def assign_def)

lemma from_bytes_little_bound: "0 \<le> from_bytes_little bs \<and> from_bytes_little bs < 256 ^ length bs"
proof (induction bs)
  case Nil
  then show ?case by (simp add: from_bytes_little_def)
next
  case (Cons b bs)
  have b: "0 \<le> uint b \<and> uint b < 256" using uint_bounded [of b] by simp
  have "from_bytes_little (b # bs) = uint b + 256 * from_bytes_little bs"
    by (simp add: from_bytes_little_def)
  then show ?case using Cons b by auto
qed

lemma hash64_range: "0 \<le> hash64 s \<and> hash64 s < 2 ^ 64"
proof -
  let ?bs = "take 8 (sha256 (utf8 s))"
  have l: "length ?bs \<le> 8" by simp
  have "(256::int) ^ length ?bs \<le> 256 ^ 8" using l by (intro power_increasing) simp_all
  then show ?thesis
    using from_bytes_little_bound [of ?bs] unfolding hash64_def by simp
qed


text \<open>
  \<open>add_function_checksums_recursive\<close>: at a \<open>CXXMethodDecl\<close> the name defaults to the empty
  string; \<open>"".join\<close> raises TypeError on a name that is not a string.
\<close>

fun as_str :: "json \<Rightarrow> string result" where
  "as_str (JStr s) = Inr s"
| "as_str _ = Inl TypeError"

definition function_checksum_node :: "(string \<times> json) list \<Rightarrow> (string \<times> json) list result" where
  "function_checksum_node node =
     (if kind_is node ''CXXMethodDecl''
      then bind (as_str (get_or node ''name'' (JStr []))) (\<lambda>func_name.
           bind (format_params (collect_params (inner_list node))) (\<lambda>params.
           Inr (dict_set ''function_checksum''
                  (JInt (calculate_function_checksum func_name params)) node)))
      else Inr node)"

lemma function_checksum_node_extends:
  assumes "function_checksum_node node = Inr node'"
  shows "extends node node'"
proof (cases "kind_is node ''CXXMethodDecl''")
  case False
  then have "node' = node" using assms by (simp add: function_checksum_node_def)
  then show ?thesis by (simp add: extends_refl)
next
  case True
  then obtain c where "node' = dict_set ''function_checksum'' (JInt c) node"
    using assms by (auto simp: function_checksum_node_def bind_def split: sum.splits)
  then show ?thesis by (simp add: extends_refl extends_dict_set)
qed

function add_function_checksums_recursive :: "json \<Rightarrow> json result" where
  "add_function_checksums_recursive (JObj node) =
     bind (function_checksum_node node) (\<lambda>node'.
     bind (map_values add_function_checksums_recursive node') (\<lambda>vs. Inr (JObj vs)))"
| "add_function_checksums_recursive (JArr xs) =
     bind (map_items add_function_checksums_recursive xs) (\<lambda>vs. Inr (JArr vs))"
| "add_function_checksums_recursive JNull = Inr JNull"
| "add_function_checksums_recursive (JBool b) = Inr (JBool b)"
| "add_function_checksums_recursive (JInt i) = Inr (JInt i)"
| "add_function_checksums_recursive (JStr s) = Inr (JStr s)"
  by pat_completeness auto
termination
proof (relation "measure nodes")
  show "wf (measure nodes)" by simp
next
  fix node node' v
  assume "function_checksum_node node = Inr node'" "v \<in> snd ` set node'"
  then show "(v, JObj node) \<in> measure nodes"
    using extends_smaller [OF function_checksum_node_extends] by simp
next
  fix xs v
  assume "v \<in> set (xs :: json list)"
  then show "(v, JArr xs) \<in> measure nodes" using nodes_member [of v xs] by auto
qed

lemma signature_params_join:
  "concat (signature_params i ps) =
     (if i > 0 \<and> ps \<noteq> [] then '', '' else [])
     @ join '', '' (map (\<lambda>p. fst p @ '':'' @ snd p) ps)"
proof (induction ps arbitrary: i)
  case Nil
  then show ?case by simp
next
  case (Cons p ps)
  obtain t n where p: "p = (t, n)" by (cases p)
  show ?case
  proof (cases ps)
    case Nil
    then show ?thesis using p by simp
  next
    case (Cons q qs)
    then show ?thesis using p Cons.IH [of "Suc i"] by simp
  qed
qed

lemma function_signature_join:
  "function_signature name ps =
     name @ ''('' @ join '', '' (map (\<lambda>p. fst p @ '':'' @ snd p) ps) @ '')''"
  by (simp add: function_signature_def signature_params_join)


text \<open>
  Claim C3, as amended. For every \<open>CXXRecordDecl\<close> node with a non-empty name, walked with a
  non-empty package name and a non-empty root namespace, the walk leaves on the node a
  \<open>full_qualified_name\<close> equal to \<open>::\<close>, the root namespace, \<open>::\<close> and the name, and an
  \<open>interface_name_hash\<close> that is the 64-bit hash of exactly that string.
\<close>

theorem interface_full_qualified_name:
  assumes "add_wit_format_names_recursive c (JObj node) = Inr r"
    and "kind_is node ''CXXRecordDecl''"
    and "map_of node ''name'' = Some (JStr name)" and "name \<noteq> []"
    and "package_name c = Some pkg" and "pkg \<noteq> []"
    and "root_namespace c = Some root" and "root \<noteq> []"
  shows "field_of (Inr r) ''full_qualified_name'' = Some (JStr (''::'' @ root @ ''::'' @ name))
     \<and> field_of (Inr r) ''interface_name_hash''
         = Some (JInt (calculate_name_hash (''::'' @ root @ ''::'' @ name)))
     \<and> calculate_name_hash (''::'' @ root @ ''::'' @ name)
         = hash64 (''::'' @ root @ ''::'' @ name)
     \<and> 0 \<le> calculate_name_hash (''::'' @ root @ ''::'' @ name)
     \<and> calculate_name_hash (''::'' @ root @ ''::'' @ name) < 2 ^ 64"
  using interface_qualified_name_field [OF assms] hash64_range [of "''::'' @ root @ ''::'' @ name"]
  by (simp add: calculate_name_hash_def)

theorem interface_full_qualified_name_witness:
  "field_of (add_wit_format_names_recursive sample_ctx (JObj sample_interface))
     ''full_qualified_name'' = Some (JStr ''::Arieo::Interface::Sample::ISample'')
   \<and> field_of (add_wit_format_names_recursive sample_ctx (JObj sample_interface))
     ''interface_name_hash''
       = Some (JInt (calculate_name_hash ''::Arieo::Interface::Sample::ISample''))"
proof -
  obtain r where r: "add_wit_format_names_recursive sample_ctx (JObj sample_interface) = Inr r"
    using returnsE [OF sample_interface_walk] by auto
  have h2: "kind_is sample_interface ''CXXRecordDecl''"
    by (simp add: sample_interface_def kind_is_def)
  have h3: "map_of sample_interface ''name'' = Some (JStr ''ISample'')"
    by (simp add: sample_interface_def)
  have h5: "package_name sample_ctx = Some ''arieo:sample''" by (simp add: sample_ctx_def)
  have h7: "root_namespace sample_ctx = Some ''Arieo::Interface::Sample''"
    by (simp add: sample_ctx_def)
  show ?thesis
    unfolding r using interface_full_qualified_name [OF r h2 h3 _ h5 _ h7] by simp
qed

text \<open>
  Claim C3 as stated fails: with package \<open>arieo:sample\<close> and root namespace
  \<open>Arieo::Interface::Sample\<close>, the interface \<open>ISample\<close> gets the fully qualified name
  \<open>::Arieo::Interface::Sample::ISample\<close>, with two leading colons, which is not the root
  namespace followed by \<open>::\<close> and the name; and without a package name the node gets no
  \<open>full_qualified_name\<close> at all.
\<close>

theorem interface_full_qualified_name_counterexample:
  "field_of (add_wit_format_names_recursive sample_ctx (JObj sample_interface))
     ''full_qualified_name'' \<noteq> Some (JStr (''Arieo::Interface::Sample'' @ ''::'' @ ''ISample''))
   \<and> field_of (add_wit_format_names_recursive (sample_ctx\<lparr>package_name := None\<rparr>)
        (JObj sample_interface)) ''full_qualified_name'' = None"
proof -
  obtain r where r: "add_wit_format_names_recursive sample_ctx (JObj sample_interface) = Inr r"
    using returnsE [OF sample_interface_walk] by auto
  have h2: "kind_is sample_interface ''CXXRecordDecl''"
    by (simp add: sample_interface_def kind_is_def)
  have h3: "map_of sample_interface ''name'' = Some (JStr ''ISample'')"
    by (simp add: sample_interface_def)
  have h5: "package_name sample_ctx = Some ''arieo:sample''" by (simp add: sample_ctx_def)
  have h7: "root_namespace sample_ctx = Some ''Arieo::Interface::Sample''"
    by (simp add: sample_ctx_def)
  have a: "field_of (add_wit_format_names_recursive sample_ctx (JObj sample_interface))
     ''full_qualified_name'' \<noteq> Some (JStr (''Arieo::Interface::Sample'' @ ''::'' @ ''ISample''))"
    unfolding r using interface_qualified_name_field [OF r h2 h3 _ h5 _ h7] by simp
  have b: "field_of (add_wit_format_names_recursive (sample_ctx\<lparr>package_name := None\<rparr>)
        (JObj sample_interface)) ''full_qualified_name'' = None"
    by (simp add: field_of_def wit_names_node_def interface_names_def function_names_def
      enter_namespace_def sample_interface_def sample_ctx_def kind_is_def truthy_str_def
      truthy_opt_def bind_def)
  show ?thesis using a b by simp
qed


lemma walk_method_checksum:
  assumes "add_wit_format_names_recursive c (JObj node) = Inr r"
    and "kind_is node ''CXXMethodDecl''"
    and "map_of node ''name'' = Some (JStr name)" and "name \<noteq> []"
  shows "\<exists>ps. format_params (collect_params (inner_list node)) = Inr ps
     \<and> field_of (Inr r) ''function_checksum''
          = Some (JInt (calculate_function_checksum name ps))"
proof -
  have "\<not> kind_is node ''NamespaceDecl''" using assms(2) by (simp add: kind_is_def)
  then have e: "enter_namespace c node = c" by (simp add: enter_namespace_def)
  have "\<not> kind_is node ''CXXRecordDecl''" using assms(2) by (simp add: kind_is_def)
  then have i: "interface_names c node = Inr (c, node)" by (rule interface_names_other_kind)
  obtain node' where f: "function_names c node = Inr node'"
    and w: "wit_names_node c node = Inr (c, node')"
    using assms(1) e i
    by (cases "function_names c node") (auto simp: wit_names_node_def bind_def)
  have t: "truthy_opt (map_of node ''name'')" using assms(3,4) by (simp add: truthy_opt_def)
  obtain ps where p: "format_params (collect_params (inner_list node)) = Inr ps"
    using f assms(2,3) t
    by (cases "format_params (collect_params (inner_list node))")
      (auto simp: function_names_def bind_def get_or_def)
  have "map_of node' ''function_checksum'' = Some (JInt (calculate_function_checksum name ps))"
    using f assms(2,3) t p
    by (auto simp: function_names_def bind_def get_or_def Let_def map_of_assign)
  from walk_object_field [OF assms(1) w this] p show ?thesis by simp
qed

lemma pass_object_field:
  assumes "add_function_checksums_recursive (JObj node) = Inr r"
    and "function_checksum_node node = Inr node'"
    and "map_of node' k = Some v"
    and "nodes v = 0"
  shows "field_of (Inr r) k = Some v"
proof -
  from assms(1,2) obtain vs where
    m: "map_values add_function_checksums_recursive node' = Inr vs" and r: "r = JObj vs"
    by (auto simp: bind_def split: sum.splits)
  from map_values_field [OF m assms(3)] obtain v' where
    "add_function_checksums_recursive v = Inr v'" "map_of vs k = Some v'" by auto
  moreover have "add_function_checksums_recursive v = Inr v"
    using assms(4) by (cases v) simp_all
  ultimately show ?thesis using r by (simp add: field_of_def)
qed

lemma pass_method_checksum:
  assumes "add_function_checksums_recursive (JObj node) = Inr r"
    and "kind_is node ''CXXMethodDecl''"
    and "get_or node ''name'' (JStr []) = JStr name"
  shows "\<exists>ps. format_params (collect_params (inner_list node)) = Inr ps
     \<and> field_of (Inr r) ''function_checksum''
          = Some (JInt (calculate_function_checksum name ps))"
proof -
  obtain node' where f: "function_checksum_node node = Inr node'"
    using assms(1) by (cases "function_checksum_node node") (auto simp: bind_def)
  obtain ps where p: "format_params (collect_params (inner_list node)) = Inr ps"
    using f assms(2,3)
    by (cases "format_params (collect_params (inner_list node))")
      (auto simp: function_checksum_node_def bind_def)
  have "map_of node' ''function_checksum'' = Some (JInt (calculate_function_checksum name ps))"
    using f assms(2,3) p
    by (auto simp: function_checksum_node_def bind_def map_of_dict_set)
  from pass_object_field [OF assms(1) f this] p show ?thesis by simp
qed


text \<open>
  Claim C1. Two \<open>CXXMethodDecl\<close> nodes with the same name string and the same ordered
  (type, name) pairs of their \<open>ParmVarDecl\<close> children get the same function checksum,
  whatever else the nodes hold (the return type is in the \<open>type\<close> field) and whatever
  contexts they are walked in (the context is all that a position in the tree hands
  down): both from the walk that the pipeline runs, which attaches a checksum to methods
  with a non-empty name, and from \<open>add_function_checksums_recursive\<close>. The checksum is the
  64-bit hash of the text made of the name and the pairs alone.
\<close>

theorem function_checksum_of_signature:
  assumes "kind_is n1 ''CXXMethodDecl''" and "kind_is n2 ''CXXMethodDecl''"
    and "map_of n1 ''name'' = Some (JStr name)" and "map_of n2 ''name'' = Some (JStr name)"
    and "collect_params (inner_list n1) = collect_params (inner_list n2)"
  shows "(\<forall>c1 c2 r1 r2.
            name \<noteq> [] \<and> add_wit_format_names_recursive c1 (JObj n1) = Inr r1
              \<and> add_wit_format_names_recursive c2 (JObj n2) = Inr r2 \<longrightarrow>
            (\<exists>ps. format_params (collect_params (inner_list n1)) = Inr ps
               \<and> field_of (Inr r1) ''function_checksum''
                    = Some (JInt (calculate_function_checksum name ps))
               \<and> field_of (Inr r2) ''function_checksum''
                    = Some (JInt (calculate_function_checksum name ps))))
     \<and> (\<forall>r1 r2.
            add_function_checksums_recursive (JObj n1) = Inr r1
              \<and> add_function_checksums_recursive (JObj n2) = Inr r2 \<longrightarrow>
            (\<exists>ps. format_params (collect_params (inner_list n1)) = Inr ps
               \<and> field_of (Inr r1) ''function_checksum''
                    = Some (JInt (calculate_function_checksum name ps))
               \<and> field_of (Inr r2) ''function_checksum''
                    = Some (JInt (calculate_function_checksum name ps))))
     \<and> (\<forall>ps. calculate_function_checksum name ps
                 = hash64 (name @ ''('' @ join '', '' (map (\<lambda>p. fst p @ '':'' @ snd p) ps) @ '')'')
               \<and> 0 \<le> calculate_function_checksum name ps
               \<and> calculate_function_checksum name ps < 2 ^ 64)"
proof (intro conjI allI impI)
  fix c1 c2 r1 r2
  assume a: "name \<noteq> [] \<and> add_wit_format_names_recursive c1 (JObj n1) = Inr r1
              \<and> add_wit_format_names_recursive c2 (JObj n2) = Inr r2"
  from a walk_method_checksum [of c1 n1 r1 name] assms(1,3) obtain ps where
    p1: "format_params (collect_params (inner_list n1)) = Inr ps"
    and f1: "field_of (Inr r1) ''function_checksum''
               = Some (JInt (calculate_function_checksum name ps))" by auto
  from a walk_method_checksum [of c2 n2 r2 name] assms(2,4) obtain qs where
    p2: "format_params (collect_params (inner_list n2)) = Inr qs"
    and f2: "field_of (Inr r2) ''function_checksum''
               = Some (JInt (calculate_function_checksum name qs))" by auto
  have "qs = ps" using p1 p2 assms(5) by simp
  then show "\<exists>ps. format_params (collect_params (inner_list n1)) = Inr ps
               \<and> field_of (Inr r1) ''function_checksum''
                    = Some (JInt (calculate_function_checksum name ps))
               \<and> field_of (Inr r2) ''function_checksum''
                    = Some (JInt (calculate_function_checksum name ps))"
    using p1 f1 f2 by auto
next
  fix r1 r2
  assume a: "add_function_checksums_recursive (JObj n1) = Inr r1
              \<and> add_function_checksums_recursive (JObj n2) = Inr r2"
  have g1: "get_or n1 ''name'' (JStr []) = JStr name" using assms(3) by (simp add: get_or_def)
  have g2: "get_or n2 ''name'' (JStr []) = JStr name" using assms(4) by (simp add: get_or_def)
  from a pass_method_checksum [of n1 r1 name] assms(1) g1 obtain ps where
    p1: "format_params (collect_params (inner_list n1)) = Inr ps"
    and f1: "field_of (Inr r1) ''function_checksum''
               = Some (JInt (calculate_function_checksum name ps))" by auto
  from a pass_method_checksum [of n2 r2 name] assms(2) g2 obtain qs where
    p2: "format_params (collect_params (inner_list n2)) = Inr qs"
    and f2: "field_of (Inr r2) ''function_checksum''
               = Some (JInt (calculate_function_checksum name qs))" by auto
  have "qs = ps" using p1 p2 assms(5) by simp
  then show "\<exists>ps. format_params (collect_params (inner_list n1)) = Inr ps
               \<and> field_of (Inr r1) ''function_checksum''
                    = Some (JInt (calculate_function_checksum name ps))
               \<and> field_of (Inr r2) ''function_checksum''
                    = Some (JInt (calculate_function_checksum name ps))"
    using p1 f1 f2 by auto
next
  fix ps
  show "calculate_function_checksum name ps
          = hash64 (name @ ''('' @ join '', '' (map (\<lambda>p. fst p @ '':'' @ snd p) ps) @ '')'')"
    by (simp add: calculate_function_checksum_def function_signature_join)
next
  fix ps
  show "0 \<le> calculate_function_checksum name ps"
    using hash64_range by (simp add: calculate_function_checksum_def)
next
  fix ps
  show "calculate_function_checksum name ps < 2 ^ 64"
    using hash64_range by (simp add: calculate_function_checksum_def)
qed


definition sample_params :: "json list" where
  "sample_params =
     [JObj [(''kind'', JStr ''ParmVarDecl''), (''name'', JStr ''count''),
            (''type'', JObj [(''qualType'', JStr ''int'')])],
      JObj [(''kind'', JStr ''ParmVarDecl''), (''name'', JStr ''flag''),
            (''type'', JObj [(''qualType'', JStr ''bool'')])]]"

definition sample_method :: "string \<Rightarrow> (string \<times> json) list" where
  "sample_method qual_type =
     [(''kind'', JStr ''CXXMethodDecl''), (''name'', JStr ''DoSomething1''),
      (''type'', JObj [(''qualType'', JStr qual_type)]),
      (''inner'', JArr sample_params)]"

lemma sample_method_params:
  "format_params (collect_params (inner_list (sample_method q)))
     = Inr [(''int'', ''count''), (''bool'', ''flag'')]"
  by (simp add: sample_method_def sample_params_def inner_list_def kind_is_def get_or_def
      bind_def)

lemma returns_bind:
  "m = Inr x \<Longrightarrow> returns (f x) \<Longrightarrow> returns (bind m f)"
  by (simp add: bind_def)

lemma map_values_returns:
  "(\<And>v. v \<in> snd ` set kvs \<Longrightarrow> returns (f v)) \<Longrightarrow> returns (map_values f kvs)"
proof (induction kvs)
  case Nil
  then show ?case by (simp add: returns_def)
next
  case (Cons p kvs)
  have "returns (f (snd p))" using Cons.prems by simp
  then obtain v where v: "f (snd p) = Inr v" using returnsE by blast
  have "returns (map_values f kvs)" using Cons by simp
  then obtain r where r: "map_values f kvs = Inr r" using returnsE by blast
  show ?case using v r by (simp add: bind_def returns_def)
qed

lemma walk_prim_returns:
  "nodes v = 0 \<Longrightarrow> returns (add_wit_format_names_recursive c v)"
  by (cases v) (simp_all add: returns_def)

lemma walk_method_returns:
  assumes "kind_is node ''CXXMethodDecl''"
    and "map_of node ''name'' = Some (JStr name)"
    and "format_params (collect_params (inner_list node)) = Inr ps"
    and "\<And>v. v \<in> snd ` set node \<Longrightarrow> returns (add_wit_format_names_recursive c v)"
  shows "returns (add_wit_format_names_recursive c (JObj node))"
proof -
  have "\<not> kind_is node ''NamespaceDecl''" using assms(1) by (simp add: kind_is_def)
  then have e: "enter_namespace c node = c" by (simp add: enter_namespace_def)
  have "\<not> kind_is node ''CXXRecordDecl''" using assms(1) by (simp add: kind_is_def)
  then have i: "interface_names c node = Inr (c, node)" by (rule interface_names_other_kind)
  obtain node' where f: "function_names c node = Inr node'"
    using assms(1,2,3)
    by (cases "truthy_opt (map_of node ''name'')")
      (simp_all add: function_names_def bind_def get_or_def Let_def)
  have w: "wit_names_node c node = Inr (c, node')"
    using e i f by (simp add: wit_names_node_def bind_def)
  have x: "extends node node'" using f by (rule function_names_extends)
  have "returns (add_wit_format_names_recursive c v)" if "v \<in> snd ` set node'" for v
  proof -
    from x that have "v \<in> snd ` set node \<or> nodes v = 0"
      unfolding extends_def by (rule bspec)
    then show ?thesis using assms(4) walk_prim_returns by auto
  qed
  then have "returns (map_values (add_wit_format_names_recursive c) node')"
    by (rule map_values_returns)
  then obtain vs where "map_values (add_wit_format_names_recursive c) node' = Inr vs"
    using returnsE by blast
  then show ?thesis using w by (simp add: bind_def returns_def)
qed

lemma sample_params_walk:
  "returns (add_wit_format_names_recursive c (JArr sample_params))"
  by (simp add: returns_def sample_params_def wit_names_node_def interface_names_def
      function_names_def enter_namespace_def kind_is_def bind_def)

lemma sample_method_walk:
  "returns (add_wit_format_names_recursive c (JObj (sample_method q)))"
proof (rule walk_method_returns)
  show "kind_is (sample_method q) ''CXXMethodDecl''" by (simp add: sample_method_def kind_is_def)
  show "map_of (sample_method q) ''name'' = Some (JStr ''DoSomething1'')"
    by (simp add: sample_method_def)
  show "format_params (collect_params (inner_list (sample_method q)))
     = Inr [(''int'', ''count''), (''bool'', ''flag'')]" by (rule sample_method_params)
  fix v
  assume "v \<in> snd ` set (sample_method q)"
  then have "v = JStr ''CXXMethodDecl'' \<or> v = JStr ''DoSomething1''
     \<or> v = JObj [(''qualType'', JStr q)] \<or> v = JArr sample_params"
    by (auto simp: sample_method_def)
  then show "returns (add_wit_format_names_recursive c v)"
    using sample_params_walk [of c]
    by (auto simp: returns_def wit_names_node_def interface_names_def
      function_names_def enter_namespace_def kind_is_def bind_def)
qed

lemma sample_method_pass:
  "returns (add_function_checksums_recursive (JObj (sample_method q)))"
  by (simp add: returns_def function_checksum_node_def sample_method_def sample_params_def
      kind_is_def get_or_def bind_def inner_list_def)

theorem function_checksum_of_signature_witness:
  "field_of (add_wit_format_names_recursive sample_ctx (JObj (sample_method ''void (int, bool)'')))
      ''function_checksum''
     = Some (JInt (calculate_function_checksum ''DoSomething1''
                     [(''int'', ''count''), (''bool'', ''flag'')]))
   \<and> field_of (add_wit_format_names_recursive
                  (sample_ctx\<lparr>parent_interface_qualified_name := Some ''::A::I''\<rparr>)
                  (JObj (sample_method ''int (int, bool)''))) ''function_checksum''
     = Some (JInt (calculate_function_checksum ''DoSomething1''
                     [(''int'', ''count''), (''bool'', ''flag'')]))
   \<and> field_of (add_function_checksums_recursive (JObj (sample_method ''void (int, bool)'')))
      ''function_checksum''
     = Some (JInt (calculate_function_checksum ''DoSomething1''
                     [(''int'', ''count''), (''bool'', ''flag'')]))
   \<and> field_of (add_function_checksums_recursive (JObj (sample_method ''int (int, bool)'')))
      ''function_checksum''
     = Some (JInt (calculate_function_checksum ''DoSomething1''
                     [(''int'', ''count''), (''bool'', ''flag'')]))"
proof -
  let ?n1 = "sample_method ''void (int, bool)''"
  let ?n2 = "sample_method ''int (int, bool)''"
  let ?c2 = "sample_ctx\<lparr>parent_interface_qualified_name := Some ''::A::I''\<rparr>"
  obtain r1 where r1: "add_wit_format_names_recursive sample_ctx (JObj ?n1) = Inr r1"
    using returnsE [OF sample_method_walk] by auto
  obtain r2 where r2: "add_wit_format_names_recursive ?c2 (JObj ?n2) = Inr r2"
    using returnsE [OF sample_method_walk] by auto
  obtain q1 where q1: "add_function_checksums_recursive (JObj ?n1) = Inr q1"
    using returnsE [OF sample_method_pass] by auto
  obtain q2 where q2: "add_function_checksums_recursive (JObj ?n2) = Inr q2"
    using returnsE [OF sample_method_pass] by auto
  have h1: "kind_is ?n1 ''CXXMethodDecl''" by (simp add: sample_method_def kind_is_def)
  have h2: "kind_is ?n2 ''CXXMethodDecl''" by (simp add: sample_method_def kind_is_def)
  have h3: "map_of ?n1 ''name'' = Some (JStr ''DoSomething1'')" by (simp add: sample_method_def)
  have h4: "map_of ?n2 ''name'' = Some (JStr ''DoSomething1'')" by (simp add: sample_method_def)
  have h5: "collect_params (inner_list ?n1) = collect_params (inner_list ?n2)"
    by (simp add: sample_method_def inner_list_def)
  note t = function_checksum_of_signature [OF h1 h2 h3 h4 h5]
  from t r1 r2 have w: "\<exists>ps. format_params (collect_params (inner_list ?n1)) = Inr ps
               \<and> field_of (Inr r1) ''function_checksum''
                    = Some (JInt (calculate_function_checksum ''DoSomething1'' ps))
               \<and> field_of (Inr r2) ''function_checksum''
                    = Some (JInt (calculate_function_checksum ''DoSomething1'' ps))"
    by (elim conjE allE [of _ sample_ctx] allE [of _ ?c2] allE [of _ r1] allE [of _ r2]) simp
  from t q1 q2 have v: "\<exists>ps. format_params (collect_params (inner_list ?n1)) = Inr ps
               \<and> field_of (Inr q1) ''function_checksum''
                    = Some (JInt (calculate_function_checksum ''DoSomething1'' ps))
               \<and> field_of (Inr q2) ''function_checksum''
                    = Some (JInt (calculate_function_checksum ''DoSomething1'' ps))"
    by (elim conjE allE [of _ q1] allE [of _ q2]) simp
  show ?thesis
    unfolding r1 r2 q1 q2 using w v by (auto simp: sample_method_params)
qed


section \<open>Merging the parsed fragments\<close>

text \<open>
  \<open>x in s\<close> for strings: \<open>p\<close> occurs in \<open>s\<close>.
\<close>

fun is_substring :: "string \<Rightarrow> string \<Rightarrow> bool" where
  "is_substring p [] = (p = [])"
| "is_substring p (c # cs) = (startswith (c # cs) p \<or> is_substring p cs)"

text \<open>
  \<open>"inner" in x\<close>: a key of an object, an item of a list, a piece of a string; TypeError
  on \<open>None\<close>, a boolean or a number.
\<close>

fun has_inner :: "json \<Rightarrow> bool result" where
  "has_inner (JObj d) = Inr (map_of d ''inner'' \<noteq> None)"
| "has_inner (JArr xs) = Inr (JStr ''inner'' \<in> set xs)"
| "has_inner (JStr s) = Inr (is_substring ''inner'' s)"
| "has_inner _ = Inl TypeError"

text \<open>\<open>if "inner" not in ast_data: ast_data["inner"] = []\<close>\<close>

definition ensure_inner :: "json \<Rightarrow> json result" where
  "ensure_inner ast_data =
     bind (has_inner ast_data) (\<lambda>present.
       if present then Inr ast_data
       else (case ast_data of
               JObj d \<Rightarrow> Inr (JObj (dict_set ''inner'' (JArr []) d))
             | _ \<Rightarrow> Inl TypeError))"

text \<open>
  \<open>ast_data["inner"].extend(ys)\<close>: indexing a list or a string by \<open>"inner"\<close> is a TypeError,
  and only a list has \<open>extend\<close>.
\<close>

definition extend_children :: "json \<Rightarrow> json list \<Rightarrow> json result" where
  "extend_children ast_data ys =
     (case ast_data of
        JObj d \<Rightarrow>
          (case map_of d ''inner'' of
             Some (JArr xs) \<Rightarrow> Inr (JObj (dict_set ''inner'' (JArr (xs @ ys)) d))
           | Some _ \<Rightarrow> Inl AttributeError
           | None \<Rightarrow> Inl KeyError)
      | _ \<Rightarrow> Inl TypeError)"

text \<open>
  One turn of \<open>for obj in json_objects[1:]\<close>:
  \<open>if "inner" in obj and isinstance(obj["inner"], list): ast_data["inner"].extend(obj["inner"])\<close>
\<close>

definition merge_one :: "json \<Rightarrow> json \<Rightarrow> json result" where
  "merge_one ast_data obj =
     bind (has_inner obj) (\<lambda>present.
       if \<not> present then Inr ast_data
       else (case obj of
               JObj d \<Rightarrow>
                 (case map_of d ''inner'' of
                    Some (JArr ys) \<Rightarrow> extend_children ast_data ys
                  | _ \<Rightarrow> Inr ast_data)
             | _ \<Rightarrow> Inl TypeError))"

primrec merge_rest :: "json \<Rightarrow> json list \<Rightarrow> json result" where
  "merge_rest ast_data [] = Inr ast_data"
| "merge_rest ast_data (obj # objs) = bind (merge_one ast_data obj) (\<lambda>a. merge_rest a objs)"

text \<open>
  The merge of \<open>json_objects\<close>, given as its first object and the others (the caller has
  raised before if there is none).
\<close>

definition merge_trees :: "json \<Rightarrow> json list \<Rightarrow> json result" where
  "merge_trees first rest =
     (if rest = [] then Inr first
      else bind (ensure_inner first) (\<lambda>ast_data. merge_rest ast_data rest))"

text \<open>A tree: an object whose \<open>inner\<close>, when present, is a list. Its top-level children.\<close>

fun is_tree :: "json \<Rightarrow> bool" where
  "is_tree (JObj d) = (case map_of d ''inner'' of None \<Rightarrow> True | Some (JArr xs) \<Rightarrow> True | Some _ \<Rightarrow> False)"
| "is_tree _ = False"

fun children :: "json \<Rightarrow> json list" where
  "children (JObj d) = inner_list d"
| "children _ = []"

fun with_children :: "json \<Rightarrow> json list \<Rightarrow> json" where
  "with_children (JObj d) xs = JObj (dict_set ''inner'' (JArr xs) d)"
| "with_children x xs = x"


lemma dict_set_twice: "dict_set k v (dict_set k w d) = dict_set k v d"
  by (induction d) auto

lemma dict_set_same: "map_of d k = Some v \<Longrightarrow> dict_set k v d = d"
  by (induction d) (auto split: if_splits)

lemma merge_one_tree:
  assumes "map_of a ''inner'' = Some (JArr xs)"
  shows "merge_one (JObj a) (JObj d) = Inr (JObj (dict_set ''inner'' (JArr (xs @ inner_list d)) a))"
proof (cases "map_of d ''inner''")
  case None
  then show ?thesis using assms
    by (simp add: merge_one_def bind_def inner_list_def dict_set_same)
next
  case (Some v)
  then show ?thesis using assms
    by (cases v)
      (simp_all add: merge_one_def bind_def inner_list_def extend_children_def dict_set_same)
qed

lemma merge_rest_trees:
  assumes "map_of a ''inner'' = Some (JArr xs)" and "list_all (\<lambda>x. \<exists>d. x = JObj d) rest"
  shows "merge_rest (JObj a) rest
         = Inr (JObj (dict_set ''inner'' (JArr (xs @ concat (map children rest))) a))"
  using assms
proof (induction rest arbitrary: a xs)
  case Nil
  then show ?case by (simp add: dict_set_same)
next
  case (Cons obj rest)
  then obtain d where d: "obj = JObj d" by auto
  let ?a = "dict_set ''inner'' (JArr (xs @ inner_list d)) a"
  have m: "merge_one (JObj a) obj = Inr (JObj ?a)"
    using Cons.prems(1) d by (simp add: merge_one_tree)
  have i: "map_of ?a ''inner'' = Some (JArr (xs @ inner_list d))"
    by (simp add: map_of_dict_set)
  have r: "list_all (\<lambda>x. \<exists>d. x = JObj d) rest" using Cons.prems(2) by simp
  show ?case
    using Cons.IH [OF i r] m d by (simp add: bind_def dict_set_twice)
qed


fun is_object :: "json \<Rightarrow> bool" where
  "is_object (JObj d) = True"
| "is_object _ = False"

fun get_field :: "json \<Rightarrow> string \<Rightarrow> json option" where
  "get_field (JObj d) k = map_of d k"
| "get_field _ k = None"

lemma merge_trees_result:
  assumes "is_tree first" and "list_all is_object rest"
  shows "merge_trees first rest =
     Inr (if rest = [] then first
          else with_children first (children first @ concat (map children rest)))"
proof (cases "rest = []")
  case True
  then show ?thesis by (simp add: merge_trees_def)
next
  case False
  obtain a where a: "first = JObj a" using assms(1) by (cases first) simp_all
  have r: "list_all (\<lambda>x. \<exists>d. x = JObj d) rest"
    using assms(2) unfolding list_all_iff
  proof (intro ballI)
    fix x
    assume "\<forall>x\<in>set rest. is_object x" "x \<in> set rest"
    then have "is_object x" by (rule bspec)
    then show "\<exists>d. x = JObj d" by (cases x) simp_all
  qed
  show ?thesis
  proof (cases "map_of a ''inner''")
    case None
    let ?a = "dict_set ''inner'' (JArr []) a"
    have e: "ensure_inner first = Inr (JObj ?a)"
      using a None by (simp add: ensure_inner_def bind_def)
    have i: "map_of ?a ''inner'' = Some (JArr [])" by (simp add: map_of_dict_set)
    show ?thesis
      using merge_rest_trees [OF i r] e a None False
      by (simp add: merge_trees_def bind_def dict_set_twice inner_list_def)
  next
    case (Some v)
    then obtain xs where v: "v = JArr xs" using assms(1) a by (cases v) simp_all
    have e: "ensure_inner first = Inr (JObj a)"
      using a Some by (simp add: ensure_inner_def bind_def)
    have i: "map_of a ''inner'' = Some (JArr xs)" using Some v by simp
    show ?thesis
      using merge_rest_trees [OF i r] e a i False
      by (simp add: merge_trees_def bind_def inner_list_def)
  qed
qed

lemma children_with_children: "is_object x \<Longrightarrow> children (with_children x xs) = xs"
  by (cases x) (simp_all add: inner_list_def map_of_dict_set)

lemma get_field_with_children:
  "k \<noteq> ''inner'' \<Longrightarrow> get_field (with_children x xs) k = get_field x k"
  by (cases x) (simp_all add: map_of_dict_set)

text \<open>
  Claim C7. For a first fragment that is a tree (an object whose \<open>inner\<close>, when present,
  is a list) and further fragments that are objects, the merge returns the first fragment
  when it is alone, and otherwise the first fragment with its \<open>inner\<close> list set to its own
  children followed by the children of every further fragment, in sequence order; every
  other field of the first fragment is kept. For two fragments the merged children are
  the children of the first followed by the children of the second.
\<close>

theorem merge_appends_children:
  assumes "is_tree first" and "list_all is_object rest"
  shows "merge_trees first rest =
           Inr (if rest = [] then first
                else with_children first (children first @ concat (map children rest)))
     \<and> (\<forall>xs. children (with_children first xs) = xs)
     \<and> (\<forall>xs k. k \<noteq> ''inner'' \<longrightarrow> get_field (with_children first xs) k = get_field first k)
     \<and> (\<forall>second. is_object second \<longrightarrow>
           merge_trees first [second]
             = Inr (with_children first (children first @ children second)))"
proof -
  have o: "is_object first" using assms(1) by (cases first) simp_all
  have two: "merge_trees first [second]
             = Inr (with_children first (children first @ children second))"
    if "is_object second" for second
    using merge_trees_result [OF assms(1), of "[second]"] that by simp
  show ?thesis
    using merge_trees_result [OF assms] children_with_children [OF o]
      get_field_with_children two
    by (intro conjI allI impI) simp_all
qed

theorem merge_appends_children_witness:
  "merge_trees
     (JObj [(''kind'', JStr ''TranslationUnitDecl''),
            (''inner'', JArr [JObj [(''name'', JStr ''A'')], JObj [(''name'', JStr ''B'')]])])
     [JObj [(''kind'', JStr ''TranslationUnitDecl''),
            (''inner'', JArr [JObj [(''name'', JStr ''C'')]])]]
   = Inr (JObj [(''kind'', JStr ''TranslationUnitDecl''),
                (''inner'', JArr [JObj [(''name'', JStr ''A'')], JObj [(''name'', JStr ''B'')],
                                 JObj [(''name'', JStr ''C'')]])])"
proof -
  let ?f1 = "JObj [(''kind'', JStr ''TranslationUnitDecl''),
            (''inner'', JArr [JObj [(''name'', JStr ''A'')], JObj [(''name'', JStr ''B'')]])]"
  let ?f2 = "JObj [(''kind'', JStr ''TranslationUnitDecl''),
            (''inner'', JArr [JObj [(''name'', JStr ''C'')]])]"
  have h1: "is_tree ?f1" by simp
  have h2: "list_all is_object [?f2]" by simp
  show ?thesis
    using merge_appends_children [OF h1 h2] by (simp add: inner_list_def)
qed


section \<open>Signature details\<close>








lemma find_absent: "ch \<notin> set s \<Longrightarrow> py_find ch s = -1"
  by (induction s) (auto simp: Let_def)
















section \<open>Evaluated fingerprints\<close>

lemma interface_checksum_5_5:
  "calculate_interface_checksum ''I'' [5, 5] = 16241924453484157892"
  by code_simp

lemma interface_checksum_5:
  "calculate_interface_checksum ''I'' [5] = 3471647269393410400"
  by code_simp

text \<open>
  Claim C2 as stated fails: the lists \<open>[5, 5]\<close> and \<open>[5]\<close> have the same set of
  checksums, and the interface \<open>I\<close> gets two different checksums from them (the sorted
  list keeps duplicates, so the hashed texts are \<open>I{5,5}\<close> and \<open>I{5}\<close>).
\<close>

theorem interface_checksum_not_by_set:
  "\<not> (\<forall>name cs cs'. set cs = set cs' \<longrightarrow>
        calculate_interface_checksum name cs = calculate_interface_checksum name cs')"
proof
  assume "\<forall>name cs cs'. set cs = set cs' \<longrightarrow>
        calculate_interface_checksum name cs = calculate_interface_checksum name cs'"
  then have "set [5, 5 :: int] = set [5] \<longrightarrow>
      calculate_interface_checksum ''I'' [5, 5] = calculate_interface_checksum ''I'' [5]"
    by (elim allE)
  then show False
    by (simp add: interface_checksum_5_5 interface_checksum_5)
qed

end
